theory Spec2Isabelle
  imports Complex_Main "HOL-Library.Multiset"
begin

section \<open>The Relay IR as the Ethos-N code generator sees it\<close>

text \<open>
  Nodes of the IR are immutable and shared; the tables of \<^verbatim>\<open>codegen.cc\<close> are
  \<^verbatim>\<open>std::map<Expr, ...>\<close>, keyed by the node's address. An expression is modelled as
  the unfolding of the graph below it, every node carrying its identity \<open>node_id\<close>: a
  node with two consumers occurs twice, with the same identity.
\<close>

type_synonym node_id = nat

datatype rtype = TensorType | TupleType "rtype list"

datatype expr =
    Var node_id "rtype option"
  | Op node_id string
  | Call node_id "rtype option" expr "expr list"
  | Tuple node_id "rtype option" "expr list"
  | TupleGetItem node_id "rtype option" expr int
  | FunctionNode node_id

fun node :: "expr \<Rightarrow> node_id" where
  "node (Var n _) = n"
| "node (Op n _) = n"
| "node (Call n _ _ _) = n"
| "node (Tuple n _ _) = n"
| "node (TupleGetItem n _ _ _) = n"
| "node (FunctionNode n) = n"

fun checked_type :: "expr \<Rightarrow> rtype option" where
  "checked_type (Var _ ty) = ty"
| "checked_type (Op _ _) = None"
| "checked_type (Call _ ty _ _) = ty"
| "checked_type (Tuple _ ty _) = ty"
| "checked_type (TupleGetItem _ ty _ _) = ty"
| "checked_type (FunctionNode _) = None"

record Function =
  params :: "expr list"
  body :: expr
  global_symbol :: "string option"

section \<open>Support-library data\<close>

datatype DataType = UINT8_QUANTIZED | INT32_QUANTIZED

datatype DataFormat = NHWC | NCHW | HWIO | NHWCB | HWIM

text \<open>The scale is a \<^verbatim>\<open>float\<close> in the library; the code generator only copies and
  compares it.\<close>

record QuantizationInfo =
  m_ZeroPoint :: int
  m_Scale :: rat

record TensorInfo =
  m_Dimensions :: "nat \<times> nat \<times> nat \<times> nat"
  m_DataType :: DataType
  m_DataFormat :: DataFormat
  m_QuantizationInfo :: QuantizationInfo

definition QuantizationInfo_default :: QuantizationInfo where
  "QuantizationInfo_default = \<lparr>m_ZeroPoint = 0, m_Scale = 1\<rparr>"

text \<open>\<^verbatim>\<open>sl::TensorInfo()\<close>: the support library's default-constructed descriptor, all
  dimensions zero. It is the value the code compares with to tell an unresolved slot.\<close>

definition TensorInfo_default :: TensorInfo where
  "TensorInfo_default =
     \<lparr>m_Dimensions = (0, 0, 0, 0), m_DataType = UINT8_QUANTIZED, m_DataFormat = NHWC,
      m_QuantizationInfo = QuantizationInfo_default\<rparr>"

record ConcatenationInfo =
  m_Axis :: nat
  m_OutputQuantizationInfo :: QuantizationInfo

record SplitInfo =
  m_SplitAxis :: nat
  m_Sizes :: "nat list"

section \<open>Errors\<close>

text \<open>\<^verbatim>\<open>EthosnError\<close> holds a list of messages and is an error when the list is not
  empty.\<close>

type_synonym EthosnError = "string list"

datatype sl_exception = NotSupportedException string | OtherException string

datatype error =
    FatalError node_id EthosnError
  | CheckFailed string
  | IndexError
  | UndefinedBehaviour string
  | Uncaught sl_exception

section \<open>The operator registry's parameter handlers\<close>

record ConcatenateParams =
  concat_info :: ConcatenationInfo
  input_infos :: "TensorInfo list"

record SplitParams =
  split_info :: SplitInfo
  input_info :: TensorInfo

definition ConcatenateParams_default :: ConcatenateParams where
  "ConcatenateParams_default =
     \<lparr>concat_info = \<lparr>m_Axis = 0, m_OutputQuantizationInfo = QuantizationInfo_default\<rparr>,
      input_infos = []\<rparr>"

definition SplitParams_default :: SplitParams where
  "SplitParams_default =
     \<lparr>split_info = \<lparr>m_SplitAxis = 0, m_Sizes = []\<rparr>, input_info = TensorInfo_default\<rparr>"

text \<open>\<^verbatim>\<open>EthosnAPI::Concatenate\<close> and \<^verbatim>\<open>EthosnAPI::Split\<close> live in
  \<^verbatim>\<open>ethosn_api.cc\<close>; they fill the parameters they are handed and return an
  \<^verbatim>\<open>EthosnError\<close>. They are parameters of the model.\<close>

record EthosnAPI =
  Concatenate :: "expr \<Rightarrow> ConcatenateParams \<Rightarrow> EthosnError \<times> ConcatenateParams"
  Split :: "expr \<Rightarrow> SplitParams \<Rightarrow> EthosnError \<times> SplitParams"

section \<open>Helpers of \<^verbatim>\<open>codegen.cc\<close>\<close>

type_synonym TensorTable = "node_id \<rightharpoonup> TensorInfo list"

definition GetTensorInfo :: "TensorTable \<Rightarrow> expr \<Rightarrow> error + TensorInfo" where
  "GetTensorInfo table call =
     (case table (node call) of
        Some infos \<Rightarrow>
          (case infos of
             [] \<Rightarrow> Inl (UndefinedBehaviour ''tensor_table[call][0]'')
           | ti # _ \<Rightarrow> Inr ti)
      | None \<Rightarrow> Inr TensorInfo_default)"

fun IsEthosnOp :: "expr \<Rightarrow> string \<Rightarrow> bool" where
  "IsEthosnOp (Call _ _ (Op _ name) _) op_name = (name = op_name)"
| "IsEthosnOp _ _ = False"

text \<open>A loop over a vector whose body may abort.\<close>

fun for_each :: "('a \<Rightarrow> 's \<Rightarrow> error + 's) \<Rightarrow> 'a list \<Rightarrow> 's \<Rightarrow> error + 's" where
  "for_each f [] s = Inr s"
| "for_each f (x # xs) s = (case f x s of Inl e \<Rightarrow> Inl e | Inr s' \<Rightarrow> for_each f xs s')"

lemma for_each_cong [fundef_cong]:
  "xs = ys \<Longrightarrow> s = t \<Longrightarrow> (\<And>x u. x \<in> set ys \<Longrightarrow> f x u = g x u)
   \<Longrightarrow> for_each f xs s = for_each g ys t"
proof (induction ys arbitrary: xs s t)
  case Nil
  then show ?case by simp
next
  case (Cons y ys)
  then show ?case by (auto split: sum.splits)
qed

section \<open>Metadata inference: \<^verbatim>\<open>InferTensorsVisitor\<close>\<close>

text \<open>
  \<open>visit_counter\<close> is the memo of the base class \<^verbatim>\<open>ExprVisitor\<close>; \<open>expanded\<close> is a
  ghost field, the nodes whose \<^verbatim>\<open>VisitExpr_\<close> has run, in order, each with the entry the
  tensor table held for it when it was expanded.
\<close>

record InferTensorsVisitor =
  tensor_table :: TensorTable
  visit_counter :: "node_id \<Rightarrow> nat"
  expanded :: "(node_id \<times> TensorInfo list option) list"

definition InferCall :: "EthosnAPI \<Rightarrow> expr \<Rightarrow> InferTensorsVisitor \<Rightarrow> error + InferTensorsVisitor" where
  "InferCall api call s =
     (case call of
        Call n ty op args \<Rightarrow>
          if IsEthosnOp call ''qnn.concatenate'' then
            (case Concatenate api call ConcatenateParams_default of
               (err, prm) \<Rightarrow>
                 (case args of
                    [] \<Rightarrow> Inl IndexError
                  | a0 # _ \<Rightarrow>
                      if err \<noteq> [] then Inl (FatalError n err)
                      else Inr (s\<lparr>tensor_table :=
                                   (tensor_table s)(node a0 \<mapsto> input_infos prm)\<rparr>)))
          else if IsEthosnOp call ''split'' then
            (case GetTensorInfo (tensor_table s) call of
               Inl e \<Rightarrow> Inl e
             | Inr ti \<Rightarrow>
                 (case Split api call (SplitParams_default\<lparr>input_info := ti\<rparr>) of
                    (err, prm) \<Rightarrow>
                      (case args of
                         [] \<Rightarrow> Inl IndexError
                       | a0 # _ \<Rightarrow>
                           if err \<noteq> [] then Inl (FatalError n err)
                           else Inr (s\<lparr>tensor_table :=
                                        (tensor_table s)(node a0 \<mapsto> [input_info prm])\<rparr>))))
          else Inl (FatalError n [''unknown operator''])
      | _ \<Rightarrow> Inr s)"

text \<open>The first loop of \<^verbatim>\<open>VisitExpr_(const TupleNode*)\<close>:
  \<^verbatim>\<open>tensor_table_[tn->fields[i]] = {tensor_table_[tuple][i]}\<close>.\<close>

fun distribute_fields :: "node_id \<Rightarrow> expr list \<Rightarrow> nat \<Rightarrow> TensorTable \<Rightarrow> error + TensorTable" where
  "distribute_fields tuple [] i tt = Inr tt"
| "distribute_fields tuple (f # fs) i tt =
     (case tt tuple of
        None \<Rightarrow> Inl (UndefinedBehaviour ''tensor_table_[tuple][i]'')
      | Some infos \<Rightarrow>
          if i < length infos
          then distribute_fields tuple fs (Suc i) (tt(node f \<mapsto> [infos ! i]))
          else Inl (UndefinedBehaviour ''tensor_table_[tuple][i]''))"

text \<open>The table update of \<^verbatim>\<open>VisitExpr_(const TupleGetItemNode*)\<close>, lines 127 to 135.\<close>

definition write_projection :: "expr \<Rightarrow> TensorTable \<Rightarrow> error + TensorTable" where
  "write_projection tg tt =
     (case tg of
        TupleGetItem n ty tuple index \<Rightarrow>
          (case tt n of
             None \<Rightarrow> Inl (CheckFailed ''tensor_table_.find(tg) != tensor_table_.end()'')
           | Some _ \<Rightarrow>
               (case checked_type tuple of
                  None \<Rightarrow> Inl (CheckFailed ''checked_type'')
                | Some tty \<Rightarrow>
                    (case (case tt (node tuple) of
                             Some _ \<Rightarrow> Inr tt
                           | None \<Rightarrow>
                               (case tty of
                                  TupleType tys \<Rightarrow>
                                    Inr (tt(node tuple \<mapsto> replicate (length tys) TensorInfo_default))
                                | TensorType \<Rightarrow> Inl (UndefinedBehaviour ''type->fields''))) of
                       Inl e \<Rightarrow> Inl e
                     | Inr tt1 \<Rightarrow>
                         (case (tt1 n, tt1 (node tuple)) of
                            (Some (d # _), Some entry) \<Rightarrow>
                              if 0 \<le> index \<and> nat index < length entry
                              then Inr (tt1(node tuple \<mapsto> entry[nat index := d]))
                              else Inl (UndefinedBehaviour ''tensor_table_[tuple][index]'')
                          | _ \<Rightarrow> Inl (UndefinedBehaviour ''tensor_table_[tg][0]'')))))
      | _ \<Rightarrow> Inr tt)"

text \<open>
  \<^verbatim>\<open>VisitExpr\<close> is inherited from \<^verbatim>\<open>ExprVisitor\<close>, which is not part of
  \<^verbatim>\<open>codegen.cc\<close>.
  Modelled from the spec: the base-class dispatcher expands a node at most once (a node
  already in the memo is counted and skipped), and nodes that are neither calls, tuples
  nor projections have no effect on the tensor table.
\<close>

fun VisitInferred :: "EthosnAPI \<Rightarrow> expr \<Rightarrow> InferTensorsVisitor \<Rightarrow> error + InferTensorsVisitor"
and VisitExpr :: "EthosnAPI \<Rightarrow> expr \<Rightarrow> InferTensorsVisitor \<Rightarrow> error + InferTensorsVisitor"
and VisitExpr_CallNode :: "EthosnAPI \<Rightarrow> expr \<Rightarrow> InferTensorsVisitor \<Rightarrow> error + InferTensorsVisitor"
and VisitExpr_TupleNode :: "EthosnAPI \<Rightarrow> expr \<Rightarrow> InferTensorsVisitor \<Rightarrow> error + InferTensorsVisitor"
and VisitExpr_TupleGetItemNode :: "EthosnAPI \<Rightarrow> expr \<Rightarrow> InferTensorsVisitor \<Rightarrow> error + InferTensorsVisitor"
where
  "VisitInferred api expr s =
     (case tensor_table s (node expr) of
        None \<Rightarrow> Inr s
      | Some infos \<Rightarrow>
          if TensorInfo_default \<in> set infos then Inr s else VisitExpr api expr s)"
| "VisitExpr api expr s =
     (if visit_counter s (node expr) \<noteq> 0
      then Inr (s\<lparr>visit_counter :=
                   (visit_counter s)(node expr := Suc (visit_counter s (node expr)))\<rparr>)
      else
        (case (case expr of
                 Call _ _ _ _ \<Rightarrow>
                   VisitExpr_CallNode api expr
                     (s\<lparr>expanded := expanded s @ [(node expr, tensor_table s (node expr))]\<rparr>)
               | Tuple _ _ _ \<Rightarrow>
                   VisitExpr_TupleNode api expr
                     (s\<lparr>expanded := expanded s @ [(node expr, tensor_table s (node expr))]\<rparr>)
               | TupleGetItem _ _ _ _ \<Rightarrow>
                   VisitExpr_TupleGetItemNode api expr
                     (s\<lparr>expanded := expanded s @ [(node expr, tensor_table s (node expr))]\<rparr>)
               | _ \<Rightarrow>
                   Inr (s\<lparr>expanded := expanded s @ [(node expr, tensor_table s (node expr))]\<rparr>)) of
           Inl e \<Rightarrow> Inl e
         | Inr s' \<Rightarrow>
             Inr (if visit_counter s' (node expr) = 0
                  then s'\<lparr>visit_counter := (visit_counter s')(node expr := 1)\<rparr>
                  else s')))"
| "VisitExpr_CallNode api (Call n ty op args) s =
     (case InferCall api (Call n ty op args) s of
        Inl e \<Rightarrow> Inl e
      | Inr s1 \<Rightarrow> for_each (VisitInferred api) args s1)"
| "VisitExpr_CallNode api _ s = Inr s"
| "VisitExpr_TupleNode api (Tuple n ty flds) s =
     (case tensor_table s n of
        None \<Rightarrow> Inl (CheckFailed ''tensor_table_.find(tuple) != tensor_table_.end()'')
      | Some _ \<Rightarrow>
          (case distribute_fields n flds 0 (tensor_table s) of
             Inl e \<Rightarrow> Inl e
           | Inr tt \<Rightarrow> for_each (VisitExpr api) flds (s\<lparr>tensor_table := tt\<rparr>)))"
| "VisitExpr_TupleNode api _ s = Inr s"
| "VisitExpr_TupleGetItemNode api (TupleGetItem n ty tuple index) s =
     (case write_projection (TupleGetItem n ty tuple index) (tensor_table s) of
        Inl e \<Rightarrow> Inl e
      | Inr tt \<Rightarrow> VisitInferred api tuple (s\<lparr>tensor_table := tt\<rparr>))"
| "VisitExpr_TupleGetItemNode api _ s = Inr s"

declare VisitInferred.simps [simp del] VisitExpr.simps [simp del]

text \<open>Lines 54 to 63 of \<^verbatim>\<open>Infer\<close>: the table is cleared and the entry of the
  expression receives one descriptor \<^verbatim>\<open>TensorInfo({1, 1, 1, 1}, UINT8_QUANTIZED, NHWC,
  QuantizationInfo())\<close> for each of its outputs. With no output the entry is never
  touched.\<close>

definition output_size :: "rtype \<Rightarrow> nat" where
  "output_size ty = (case ty of TupleType tys \<Rightarrow> length tys | TensorType \<Rightarrow> 1)"

definition Infer_init :: "expr \<Rightarrow> InferTensorsVisitor \<Rightarrow> error + InferTensorsVisitor" where
  "Infer_init expr s =
     (case checked_type expr of
        None \<Rightarrow> Inl (CheckFailed ''expr->checked_type().defined()'')
      | Some ty \<Rightarrow>
          Inr (s\<lparr>tensor_table :=
                  (if output_size ty = 0 then Map.empty
                   else [node expr \<mapsto>
                           replicate (output_size ty)
                             \<lparr>m_Dimensions = (1, 1, 1, 1), m_DataType = UINT8_QUANTIZED,
                              m_DataFormat = NHWC,
                              m_QuantizationInfo = QuantizationInfo_default\<rparr>])\<rparr>))"

definition Infer :: "EthosnAPI \<Rightarrow> expr \<Rightarrow> InferTensorsVisitor \<Rightarrow> error + (TensorTable \<times> InferTensorsVisitor)" where
  "Infer api expr s =
     (case Infer_init expr s of
        Inl e \<Rightarrow> Inl e
      | Inr s0 \<Rightarrow>
          (case VisitInferred api expr s0 of
             Inl e \<Rightarrow> Inl e
           | Inr s1 \<Rightarrow> Inr (tensor_table s1, s1)))"

text \<open>A visitor object as its constructor leaves it.\<close>

definition InferTensorsVisitor_new :: InferTensorsVisitor where
  "InferTensorsVisitor_new = \<lparr>tensor_table = Map.empty, visit_counter = (\<lambda>_. 0), expanded = []\<rparr>"

text \<open>\<^verbatim>\<open>InferTensors\<close> is declared in \<^verbatim>\<open>codegen_ethosn.h\<close>.
  Modelled from the spec: it runs metadata inference with an inference visitor of its
  own and returns the table.\<close>

definition InferTensors :: "EthosnAPI \<Rightarrow> expr \<Rightarrow> error + TensorTable" where
  "InferTensors api expr =
     (case Infer api expr InferTensorsVisitor_new of
        Inl e \<Rightarrow> Inl e
      | Inr (tt, _) \<Rightarrow> Inr tt)"

section \<open>Network construction: \<^verbatim>\<open>ConstructNetworkVisitor\<close>\<close>

text \<open>An operand is a handle owned by the network, one output of one of its operations
  (the operation and the index of the output); the tables hold shared pointers to
  operands, \<open>None\<close> being the null pointer.\<close>

datatype Operand = Operand nat nat

type_synonym operation_id = nat

record TensorsAndId =
  tensors :: "Operand option list"
  operationId :: operation_id

record InputBufferInfo =
  in_SourceOperationId :: operation_id

record OutputBufferInfo =
  out_SourceOperationId :: operation_id
  out_SourceOperationOutputIndex :: nat

record CompiledNetwork =
  GetInputBufferInfos :: "InputBufferInfo list"
  GetOutputBufferInfos :: "OutputBufferInfo list"

record EthosnCompilerConfig =
  variant :: nat
  strategy0 :: bool
  strategy1 :: bool
  strategy3 :: bool
  strategy4 :: bool
  strategy6 :: bool
  strategy7 :: bool
  dump_ram :: bool
  initial_sram_dump :: bool
  block_config_16x16 :: bool
  block_config_32x8 :: bool
  block_config_8x32 :: bool
  block_config_8x8 :: bool
  enable_intermediate_compression :: bool
  disable_winograd :: bool
  dump_debug_files :: bool
  debug_dir :: string
  enable_cascading :: bool

record CompilationOptions =
  m_Variant :: nat
  m_Strategy0 :: bool
  m_Strategy1 :: bool
  m_Strategy3 :: bool
  m_Strategy4 :: bool
  m_Strategy6 :: bool
  m_Strategy7 :: bool
  m_DumpRam :: bool
  m_InitialSramDump :: bool
  m_BlockConfig16x16 :: bool
  m_BlockConfig32x8 :: bool
  m_BlockConfig8x32 :: bool
  m_BlockConfig8x8 :: bool
  m_EnableIntermediateCompression :: bool
  m_DisableWinograd :: bool
  m_DumpDebugFiles :: bool
  m_DebugDir :: string
  m_EnableCascading :: bool

text \<open>The support library is a parameter of the model: the network type and the calls
  the code generator makes on it. A call that throws returns the exception.\<close>

record 'net SupportLibrary =
  CreateNetwork :: "'net"
  AddInput :: "'net \<Rightarrow> TensorInfo \<Rightarrow> 'net \<times> Operand \<times> operation_id"
  AddOutput :: "'net \<Rightarrow> Operand \<Rightarrow> 'net"
  AddConcatenation ::
    "'net \<Rightarrow> Operand option list \<Rightarrow> ConcatenationInfo \<Rightarrow> sl_exception + ('net \<times> Operand \<times> operation_id)"
  AddSplit ::
    "'net \<Rightarrow> Operand \<Rightarrow> SplitInfo \<Rightarrow> sl_exception + ('net \<times> Operand list \<times> operation_id)"
  Compile :: "'net \<Rightarrow> CompilationOptions \<Rightarrow> CompiledNetwork list"

text \<open>\<open>cn_visit_counter\<close> is the memo of the base class \<^verbatim>\<open>MixedModeVisitor\<close>;
  \<open>translated\<close> is a ghost field, the nodes whose \<^verbatim>\<open>VisitExpr_\<close> has run, in order.
  The operand and identifier tables are only ever accessed with \<^verbatim>\<open>operator[]\<close>, which
  makes a missing entry an empty vector.\<close>

record 'net ConstructNetworkVisitor =
  network :: "'net"
  operand_table :: "node_id \<Rightarrow> Operand option list"
  id_table :: "node_id \<Rightarrow> (operation_id \<times> nat) list"
  cn_tensor_table :: TensorTable
  cn_visit_counter :: "node_id \<Rightarrow> nat"
  translated :: "node_id list"

record 'net NetworkWithIDs =
  nw_network :: "'net"
  input_ids :: "operation_id \<rightharpoonup> nat"
  output_ids :: "(operation_id \<times> nat) \<rightharpoonup> nat"

definition MakeOps :: "Operand option \<times> operation_id \<Rightarrow> TensorsAndId" where
  "MakeOps op = \<lparr>tensors = [fst op], operationId = snd op\<rparr>"

text \<open>The handlers return the \<^verbatim>\<open>EthosnError\<close>, the out-parameter and the visitor; \<open>Inl\<close>
  is what leaves the handler otherwise than by \<^verbatim>\<open>return\<close>.\<close>

definition MakeConcatenateLayer ::
  "EthosnAPI \<Rightarrow> 'net SupportLibrary \<Rightarrow> expr \<Rightarrow> Operand option \<times> operation_id
   \<Rightarrow> 'net ConstructNetworkVisitor
   \<Rightarrow> error + (EthosnError \<times> (Operand option \<times> operation_id) \<times> 'net ConstructNetworkVisitor)" where
  "MakeConcatenateLayer api sl call out s =
     (case call of
        Call n ty op args \<Rightarrow>
          (case Concatenate api call ConcatenateParams_default of
             (err, prm) \<Rightarrow>
               if err \<noteq> [] then Inr (err, out, s)
               else
                 (case args of
                    [] \<Rightarrow> Inl IndexError
                  | a0 # _ \<Rightarrow>
                      (case AddConcatenation sl (network s) (operand_table s (node a0))
                              (concat_info prm) of
                         Inl (NotSupportedException what) \<Rightarrow> Inr ([what], out, s)
                       | Inl (OtherException what) \<Rightarrow> Inl (Uncaught (OtherException what))
                       | Inr (net, operand, opid) \<Rightarrow>
                           Inr ([], (Some operand, opid), s\<lparr>network := net\<rparr>))))
      | _ \<Rightarrow> Inr ([], out, s))"

definition MakeSplitLayer ::
  "EthosnAPI \<Rightarrow> 'net SupportLibrary \<Rightarrow> expr \<Rightarrow> TensorsAndId \<Rightarrow> 'net ConstructNetworkVisitor
   \<Rightarrow> error + (EthosnError \<times> TensorsAndId \<times> 'net ConstructNetworkVisitor)" where
  "MakeSplitLayer api sl call outs s =
     (case call of
        Call n ty op args \<Rightarrow>
          (case GetTensorInfo (cn_tensor_table s) call of
             Inl e \<Rightarrow> Inl e
           | Inr ti \<Rightarrow>
               (case Split api call (SplitParams_default\<lparr>input_info := ti\<rparr>) of
                  (err, prm) \<Rightarrow>
                    if err \<noteq> [] then Inr (err, outs, s)
                    else
                      (case args of
                         [] \<Rightarrow> Inl IndexError
                       | a0 # _ \<Rightarrow>
                           (case operand_table s (node a0) of
                              [] \<Rightarrow> Inl (UndefinedBehaviour ''operand_table_[call->args[0]][0]'')
                            | None # _ \<Rightarrow> Inl (UndefinedBehaviour ''*input'')
                            | Some input # _ \<Rightarrow>
                                (case AddSplit sl (network s) input (split_info prm) of
                                   Inl (NotSupportedException what) \<Rightarrow> Inr ([what], outs, s)
                                 | Inl (OtherException what) \<Rightarrow>
                                     Inl (Uncaught (OtherException what))
                                 | Inr (net, operands, opid) \<Rightarrow>
                                     Inr ([], \<lparr>tensors = map Some operands, operationId = opid\<rparr>,
                                          s\<lparr>network := net\<rparr>))))))
      | _ \<Rightarrow> Inr ([], outs, s))"

text \<open>\<^verbatim>\<open>ReportFatalError\<close> is declared in \<^verbatim>\<open>codegen_ethosn.h\<close>.
  Modelled from the spec: it aborts the compilation of the function with a diagnostic
  attributed to the node; it does not return.\<close>

definition ReportFatalError :: "expr \<Rightarrow> EthosnError \<Rightarrow> error" where
  "ReportFatalError expr err = FatalError (node expr) err"

definition HandleCall ::
  "EthosnAPI \<Rightarrow> 'net SupportLibrary \<Rightarrow> expr \<Rightarrow> 'net ConstructNetworkVisitor
   \<Rightarrow> error + (TensorsAndId \<times> 'net ConstructNetworkVisitor)" where
  "HandleCall api sl call s =
     (if IsEthosnOp call ''qnn.concatenate'' then
        (case MakeConcatenateLayer api sl call (None, 0) s of
           Inl e \<Rightarrow> Inl e
         | Inr (err, tensor, s1) \<Rightarrow>
             if err \<noteq> [] then Inl (ReportFatalError call err) else Inr (MakeOps tensor, s1))
      else if IsEthosnOp call ''split'' then
        (case MakeSplitLayer api sl call \<lparr>tensors = [], operationId = 0\<rparr> s of
           Inl e \<Rightarrow> Inl e
         | Inr (err, tns, s1) \<Rightarrow>
             if err \<noteq> [] then Inl (ReportFatalError call err) else Inr (tns, s1))
      else Inl (ReportFatalError call [''unknown operator'']))"

definition CN_VisitExpr_CallNode ::
  "EthosnAPI \<Rightarrow> 'net SupportLibrary \<Rightarrow> expr \<Rightarrow> 'net ConstructNetworkVisitor
   \<Rightarrow> error + 'net ConstructNetworkVisitor" where
  "CN_VisitExpr_CallNode api sl cn s =
     (case HandleCall api sl cn s of
        Inl e \<Rightarrow> Inl e
      | Inr (operand, s1) \<Rightarrow>
          Inr (s1\<lparr>operand_table := (operand_table s1)(node cn := tensors operand),
                  id_table := (id_table s1)
                    (node cn := id_table s1 (node cn) @
                       map (\<lambda>i. (operationId operand, i)) [0..<length (tensors operand)])\<rparr>))"

text \<open>The loop of \<^verbatim>\<open>VisitExpr_(const TupleNode*)\<close>, lines 206 to 216.\<close>

fun tuple_fields ::
  "node_id \<Rightarrow> expr list \<Rightarrow> 'net ConstructNetworkVisitor \<Rightarrow> error + 'net ConstructNetworkVisitor" where
  "tuple_fields tuple [] s = Inr s"
| "tuple_fields tuple (arg # rest) s =
     (if length (operand_table s (node arg)) = 1
      then
        (case id_table s (node arg) of
           [] \<Rightarrow> Inl (UndefinedBehaviour ''id_table_[arg][0]'')
         | i0 # _ \<Rightarrow>
             tuple_fields tuple rest
               (s\<lparr>operand_table := (operand_table s)
                     (tuple := operand_table s tuple @ [hd (operand_table s (node arg))]),
                  id_table := (id_table s)(tuple := id_table s tuple @ [i0])\<rparr>))
      else
        tuple_fields tuple rest
          (s\<lparr>operand_table := (operand_table s)(tuple := operand_table s tuple @ [None]),
             id_table := (id_table s)(tuple := id_table s tuple @ [(0, 0)])\<rparr>))"

definition CN_VisitExpr_TupleNode ::
  "expr \<Rightarrow> 'net ConstructNetworkVisitor \<Rightarrow> error + 'net ConstructNetworkVisitor" where
  "CN_VisitExpr_TupleNode op s =
     (case op of Tuple n ty flds \<Rightarrow> tuple_fields n flds s | _ \<Rightarrow> Inr s)"

definition CN_VisitExpr_TupleGetItemNode ::
  "expr \<Rightarrow> 'net ConstructNetworkVisitor \<Rightarrow> error + 'net ConstructNetworkVisitor" where
  "CN_VisitExpr_TupleGetItemNode tg s =
     (case tg of
        TupleGetItem n ty tuple index \<Rightarrow>
          if 0 \<le> index \<and> nat index < length (operand_table s (node tuple))
             \<and> nat index < length (id_table s (node tuple))
          then Inr (s\<lparr>operand_table :=
                        (operand_table s)(n := [operand_table s (node tuple) ! nat index]),
                      id_table := (id_table s)(n := [id_table s (node tuple) ! nat index])\<rparr>)
          else Inl (UndefinedBehaviour ''operand_table_[tuple][tg->index]'')
      | _ \<Rightarrow> Inr s)"

text \<open>\<^verbatim>\<open>MixedModeVisitor\<close> is not part of \<^verbatim>\<open>codegen.cc\<close>.
  Modelled from the spec: its \<^verbatim>\<open>VisitLeaf\<close> dispatches on a node that the memo does not
  hold yet and then counts the node; its \<^verbatim>\<open>VisitExpr\<close> is a post-order, memoized,
  dependency-first traversal of calls, tuples and projections.\<close>

definition MixedModeVisitor_VisitLeaf ::
  "EthosnAPI \<Rightarrow> 'net SupportLibrary \<Rightarrow> expr \<Rightarrow> 'net ConstructNetworkVisitor
   \<Rightarrow> error + 'net ConstructNetworkVisitor" where
  "MixedModeVisitor_VisitLeaf api sl expr s =
     (case (if cn_visit_counter s (node expr) < 1
            then
              (case expr of
                 Call _ _ _ _ \<Rightarrow>
                   CN_VisitExpr_CallNode api sl expr (s\<lparr>translated := translated s @ [node expr]\<rparr>)
               | Tuple _ _ _ \<Rightarrow>
                   CN_VisitExpr_TupleNode expr (s\<lparr>translated := translated s @ [node expr]\<rparr>)
               | TupleGetItem _ _ _ _ \<Rightarrow>
                   CN_VisitExpr_TupleGetItemNode expr (s\<lparr>translated := translated s @ [node expr]\<rparr>)
               | _ \<Rightarrow> Inr (s\<lparr>translated := translated s @ [node expr]\<rparr>))
            else Inr s) of
        Inl e \<Rightarrow> Inl e
      | Inr s' \<Rightarrow>
          Inr (s'\<lparr>cn_visit_counter :=
                   (cn_visit_counter s')(node expr := Suc (cn_visit_counter s' (node expr)))\<rparr>))"

text \<open>Lines 225 to 228.\<close>

definition VisitLeaf ::
  "EthosnAPI \<Rightarrow> 'net SupportLibrary \<Rightarrow> expr \<Rightarrow> 'net ConstructNetworkVisitor
   \<Rightarrow> error + 'net ConstructNetworkVisitor" where
  "VisitLeaf api sl expr s =
     (case expr of
        FunctionNode _ \<Rightarrow> Inr s
      | _ \<Rightarrow> MixedModeVisitor_VisitLeaf api sl expr s)"

fun CN_VisitExpr ::
  "EthosnAPI \<Rightarrow> 'net SupportLibrary \<Rightarrow> expr \<Rightarrow> 'net ConstructNetworkVisitor
   \<Rightarrow> error + 'net ConstructNetworkVisitor" where
  "CN_VisitExpr api sl expr s =
     (if cn_visit_counter s (node expr) < 1
      then
        (case (case expr of
                 Call n ty op args \<Rightarrow> for_each (CN_VisitExpr api sl) (op # args) s
               | Tuple n ty flds \<Rightarrow> for_each (CN_VisitExpr api sl) flds s
               | TupleGetItem n ty tuple index \<Rightarrow> CN_VisitExpr api sl tuple s
               | _ \<Rightarrow> Inr s) of
           Inl e \<Rightarrow> Inl e
         | Inr s1 \<Rightarrow> VisitLeaf api sl expr s1)
      else Inr s)"

declare CN_VisitExpr.simps [simp del]

text \<open>The loops of \<^verbatim>\<open>Construct\<close>. The inner loop of lines 159 to 164 adds one network
  input for each descriptor of a parameter; \<open>idx\<close> is an \<^verbatim>\<open>unsigned int\<close>, far from
  wrapping for any function that fits in memory.\<close>

fun add_inputs ::
  "'net SupportLibrary \<Rightarrow> node_id \<Rightarrow> TensorInfo list
   \<Rightarrow> 'net ConstructNetworkVisitor \<times> (operation_id \<rightharpoonup> nat) \<times> nat
   \<Rightarrow> 'net ConstructNetworkVisitor \<times> (operation_id \<rightharpoonup> nat) \<times> nat" where
  "add_inputs sl param [] acc = acc"
| "add_inputs sl param (tensor_info # rest) (s, ids, idx) =
     (case AddInput sl (network s) tensor_info of
        (net, tensor, opid) \<Rightarrow>
          add_inputs sl param rest
            (s\<lparr>network := net,
               operand_table := (operand_table s)(param := operand_table s param @ [Some tensor]),
               id_table := (id_table s)(param := id_table s param @ [(opid, 0)])\<rparr>,
             ids(opid \<mapsto> idx), Suc idx))"

text \<open>The loop of lines 158 to 165; \<^verbatim>\<open>tensor_table_[param]\<close> makes a missing entry an
  empty vector.\<close>

fun add_params ::
  "'net SupportLibrary \<Rightarrow> expr list
   \<Rightarrow> 'net ConstructNetworkVisitor \<times> (operation_id \<rightharpoonup> nat) \<times> nat
   \<Rightarrow> 'net ConstructNetworkVisitor \<times> (operation_id \<rightharpoonup> nat) \<times> nat" where
  "add_params sl [] acc = acc"
| "add_params sl (param # rest) (s, ids, idx) =
     (case cn_tensor_table s (node param) of
        None \<Rightarrow>
          add_params sl rest
            (s\<lparr>cn_tensor_table := (cn_tensor_table s)(node param \<mapsto> [])\<rparr>, ids, idx)
      | Some infos \<Rightarrow> add_params sl rest (add_inputs sl (node param) infos (s, ids, idx)))"

text \<open>The loop of lines 170 to 174.\<close>

fun add_outputs ::
  "'net SupportLibrary \<Rightarrow> node_id \<Rightarrow> Operand option list
   \<Rightarrow> 'net ConstructNetworkVisitor \<times> ((operation_id \<times> nat) \<rightharpoonup> nat) \<times> nat
   \<Rightarrow> error + ('net ConstructNetworkVisitor \<times> ((operation_id \<times> nat) \<rightharpoonup> nat) \<times> nat)" where
  "add_outputs sl b [] acc = Inr acc"
| "add_outputs sl b (layer # rest) (s, ids, idx) =
     (case layer of
        None \<Rightarrow> Inl (UndefinedBehaviour ''*layer'')
      | Some l \<Rightarrow>
          if idx < length (id_table s b)
          then add_outputs sl b rest
                 (s\<lparr>network := AddOutput sl (network s) l\<rparr>, ids(id_table s b ! idx \<mapsto> idx), Suc idx)
          else Inl (UndefinedBehaviour ''id_table_[func->body][idx]''))"

definition Construct ::
  "EthosnAPI \<Rightarrow> 'net SupportLibrary \<Rightarrow> Function \<Rightarrow> 'net ConstructNetworkVisitor
   \<Rightarrow> error + ('net NetworkWithIDs \<times> 'net ConstructNetworkVisitor)" where
  "Construct api sl func s =
     (case InferTensors api (body func) of
        Inl e \<Rightarrow> Inl e
      | Inr tt \<Rightarrow>
          (case add_params sl (params func)
                  (s\<lparr>network := CreateNetwork sl, operand_table := (\<lambda>_. []), cn_tensor_table := tt\<rparr>,
                   Map.empty, 0) of
             (s1, in_ids, _) \<Rightarrow>
               (case CN_VisitExpr api sl (body func) s1 of
                  Inl e \<Rightarrow> Inl e
                | Inr s2 \<Rightarrow>
                    (case add_outputs sl (node (body func)) (operand_table s2 (node (body func)))
                            (s2, Map.empty, 0) of
                       Inl e \<Rightarrow> Inl e
                     | Inr (s3, out_ids, _) \<Rightarrow>
                         Inr (\<lparr>nw_network = network s3, input_ids = in_ids, output_ids = out_ids\<rparr>,
                              s3)))))"

text \<open>A visitor object as its constructor leaves it (the network pointer is assigned
  by \<^verbatim>\<open>Construct\<close> before any use).\<close>

definition ConstructNetworkVisitor_new :: "'net SupportLibrary \<Rightarrow> 'net ConstructNetworkVisitor" where
  "ConstructNetworkVisitor_new sl =
     \<lparr>network = CreateNetwork sl, operand_table = (\<lambda>_. []), id_table = (\<lambda>_. []),
      cn_tensor_table = Map.empty, cn_visit_counter = (\<lambda>_. 0), translated = []\<rparr>"

text \<open>\<^verbatim>\<open>ConstructNetwork\<close> is declared in \<^verbatim>\<open>codegen_ethosn.h\<close>.
  Modelled from the spec: it runs network construction with a construction visitor of
  its own and returns the network with its identifier maps.\<close>

definition ConstructNetwork ::
  "EthosnAPI \<Rightarrow> 'net SupportLibrary \<Rightarrow> Function \<Rightarrow> error + 'net NetworkWithIDs" where
  "ConstructNetwork api sl func =
     (case Construct api sl func (ConstructNetworkVisitor_new sl) of
        Inl e \<Rightarrow> Inl e
      | Inr (nw, _) \<Rightarrow> Inr nw)"

section \<open>The compiler: \<^verbatim>\<open>EthosnCompiler\<close>\<close>

text \<open>The pass context holds the user's configuration, if any; the attribute defaults
  and the table \<^verbatim>\<open>variants\<close> are declared in \<^verbatim>\<open>codegen_ethosn.h\<close> and are parameters.\<close>

record PassContext =
  ctx_config :: "EthosnCompilerConfig option"
  ctx_defaults :: EthosnCompilerConfig
  ctx_variants :: "nat list"

definition CreateOptions :: "PassContext \<Rightarrow> error + CompilationOptions" where
  "CreateOptions ctx =
     (let cfg = (case ctx_config ctx of None \<Rightarrow> ctx_defaults ctx | Some c \<Rightarrow> c) in
      if variant cfg < length (ctx_variants ctx)
      then Inr \<lparr>m_Variant = ctx_variants ctx ! variant cfg,
                m_Strategy0 = strategy0 cfg, m_Strategy1 = strategy1 cfg,
                m_Strategy3 = strategy3 cfg, m_Strategy4 = strategy4 cfg,
                m_Strategy6 = strategy6 cfg, m_Strategy7 = strategy7 cfg,
                m_DumpRam = dump_ram cfg, m_InitialSramDump = initial_sram_dump cfg,
                m_BlockConfig16x16 = block_config_16x16 cfg,
                m_BlockConfig32x8 = block_config_32x8 cfg,
                m_BlockConfig8x32 = block_config_8x32 cfg,
                m_BlockConfig8x8 = block_config_8x8 cfg,
                m_EnableIntermediateCompression = enable_intermediate_compression cfg,
                m_DisableWinograd = disable_winograd cfg,
                m_DumpDebugFiles = dump_debug_files cfg, m_DebugDir = debug_dir cfg,
                m_EnableCascading = enable_cascading cfg\<rparr>
      else Inl (UndefinedBehaviour ''variants[cfg.value()->variant]''))"

text \<open>\<^verbatim>\<open>std::map::operator[]\<close> on a missing key yields a value-initialised entry, \<open>0\<close>.\<close>

definition GetInputOutputOrder :: "'net NetworkWithIDs \<Rightarrow> CompiledNetwork \<Rightarrow> nat list \<times> nat list" where
  "GetInputOutputOrder nw compiled_network =
     (map (\<lambda>input_info.
             case input_ids nw (in_SourceOperationId input_info) of None \<Rightarrow> 0 | Some p \<Rightarrow> p)
          (GetInputBufferInfos compiled_network),
      map (\<lambda>output_info.
             case output_ids nw (out_SourceOperationId output_info,
                                 out_SourceOperationOutputIndex output_info) of
               None \<Rightarrow> 0 | Some p \<Rightarrow> p)
          (GetOutputBufferInfos compiled_network))"

record OrderedCompiledNetwork =
  ocn_name :: string
  ocn_cmm :: CompiledNetwork
  ocn_inputs :: "nat list"
  ocn_outputs :: "nat list"

text \<open>The first component of the result is a ghost: the invocations of the vendor
  compiler \<^verbatim>\<open>sl::Compile\<close>, with their arguments, in order.\<close>

definition CompileEthosnFunc ::
  "EthosnAPI \<Rightarrow> 'net SupportLibrary \<Rightarrow> PassContext \<Rightarrow> string \<Rightarrow> Function
   \<Rightarrow> ('net \<times> CompilationOptions) list \<times> (error + OrderedCompiledNetwork)" where
  "CompileEthosnFunc api sl ctx name_hint func =
     (case ConstructNetwork api sl func of
        Inl e \<Rightarrow> ([], Inl e)
      | Inr network_with_ids \<Rightarrow>
          (case CreateOptions ctx of
             Inl e \<Rightarrow> ([], Inl e)
           | Inr options \<Rightarrow>
               (case Compile sl (nw_network network_with_ids) options of
                  [] \<Rightarrow>
                    ([(nw_network network_with_ids, options)],
                     Inl (CheckFailed ''Ethos-N compiler failed to compile network''))
                | compiled_network # _ \<Rightarrow>
                    ([(nw_network network_with_ids, options)],
                     Inr \<lparr>ocn_name = name_hint, ocn_cmm = compiled_network,
                          ocn_inputs = fst (GetInputOutputOrder network_with_ids compiled_network),
                          ocn_outputs = snd (GetInputOutputOrder network_with_ids compiled_network)\<rparr>))))"

section \<open>Notions used in the statements\<close>

text \<open>The entry of the tuple that a projection writes into: the entry in the table, or
  the entry of unresolved descriptors that the resize creates.\<close>

definition projected_entry :: "TensorTable \<Rightarrow> expr \<Rightarrow> nat \<Rightarrow> TensorInfo list" where
  "projected_entry tt tuple arity =
     (case tt (node tuple) of None \<Rightarrow> replicate arity TensorInfo_default | Some entry \<Rightarrow> entry)"

text \<open>What the tuple visit of network construction records for one field.\<close>

definition field_operand :: "'net ConstructNetworkVisitor \<Rightarrow> expr \<Rightarrow> Operand option" where
  "field_operand s arg =
     (if length (operand_table s (node arg)) = 1 then hd (operand_table s (node arg)) else None)"

definition field_id :: "'net ConstructNetworkVisitor \<Rightarrow> expr \<Rightarrow> operation_id \<times> nat" where
  "field_id s arg =
     (if length (operand_table s (node arg)) = 1 then hd (id_table s (node arg)) else (0, 0))"








text \<open>Relations between two states of the construction visitor, for the proofs about
  its traversal: everything but the network and the entries of one node is the same;
  the nodes translated are the nodes in the memo, each once; what the memo holds keeps
  its entries.\<close>

definition same_tables :: "'net ConstructNetworkVisitor \<Rightarrow> 'net ConstructNetworkVisitor \<Rightarrow> node_id \<Rightarrow> bool" where
  "same_tables s s' n \<longleftrightarrow>
     cn_visit_counter s' = cn_visit_counter s \<and> translated s' = translated s
     \<and> (\<forall>x. x \<noteq> n \<longrightarrow> operand_table s' x = operand_table s x \<and> id_table s' x = id_table s x)"

definition cn_inv :: "'net ConstructNetworkVisitor \<Rightarrow> bool" where
  "cn_inv s \<longleftrightarrow> distinct (translated s) \<and> set (translated s) = {n. 1 \<le> cn_visit_counter s n}"

definition cn_keeps :: "'net ConstructNetworkVisitor \<Rightarrow> 'net ConstructNetworkVisitor \<Rightarrow> bool" where
  "cn_keeps s s' \<longleftrightarrow>
     (cn_inv s \<longrightarrow> cn_inv s')
     \<and> (\<forall>x. 1 \<le> cn_visit_counter s x \<longrightarrow>
            1 \<le> cn_visit_counter s' x \<and> operand_table s' x = operand_table s x
            \<and> id_table s' x = id_table s x)"

text \<open>An entry passes the gate of \<^verbatim>\<open>VisitInferred\<close> when it exists and none of its
  descriptors is the default-constructed one.\<close>

definition entry_resolved :: "TensorInfo list option \<Rightarrow> bool" where
  "entry_resolved ent = (case ent of None \<Rightarrow> False | Some infos \<Rightarrow> TensorInfo_default \<notin> set infos)"

text \<open>The parameter handlers resolve what they return: a handler that reports no error
  leaves no default-constructed descriptor in the input descriptors of its parameters.\<close>

definition api_resolves :: "EthosnAPI \<Rightarrow> bool" where
  "api_resolves api \<longleftrightarrow>
     (\<forall>call prm prm'. Concatenate api call prm = ([], prm')
        \<longrightarrow> TensorInfo_default \<notin> set (input_infos prm'))
     \<and> (\<forall>call prm prm'. Split api call prm = ([], prm')
        \<longrightarrow> input_info prm' \<noteq> TensorInfo_default)"

text \<open>Every expansion in the log found an entry that passes the gate.\<close>

definition log_resolved :: "InferTensorsVisitor \<Rightarrow> bool" where
  "log_resolved s = list_all (\<lambda>p. entry_resolved (snd p)) (expanded s)"

text \<open>The identities of the nodes that metadata inference reaches from an expression (the
  callee of a call is not visited), and those it reaches from the children of the root.\<close>

fun nodes_of :: "expr \<Rightarrow> node_id set" where
  "nodes_of (Var n _) = {n}"
| "nodes_of (Op n _) = {n}"
| "nodes_of (Call n _ _ args) = insert n (\<Union>a \<in> set args. nodes_of a)"
| "nodes_of (Tuple n _ flds) = insert n (\<Union>f \<in> set flds. nodes_of f)"
| "nodes_of (TupleGetItem n _ tuple _) = insert n (nodes_of tuple)"
| "nodes_of (FunctionNode n) = {n}"

fun below :: "expr \<Rightarrow> node_id set" where
  "below (Call _ _ _ args) = (\<Union>a \<in> set args. nodes_of a)"
| "below (Tuple _ _ flds) = (\<Union>f \<in> set flds. nodes_of f)"
| "below (TupleGetItem _ _ tuple _) = nodes_of tuple"
| "below _ = {}"

text \<open>The dispatch of \<^verbatim>\<open>VisitExpr\<close> on the kind of the node, as one function of the state.\<close>

definition VisitExpr_dispatch :: "EthosnAPI \<Rightarrow> expr \<Rightarrow> InferTensorsVisitor \<Rightarrow> error + InferTensorsVisitor" where
  "VisitExpr_dispatch api expr s =
     (case expr of
        Call _ _ _ _ \<Rightarrow> VisitExpr_CallNode api expr s
      | Tuple _ _ _ \<Rightarrow> VisitExpr_TupleNode api expr s
      | TupleGetItem _ _ _ _ \<Rightarrow> VisitExpr_TupleGetItemNode api expr s
      | _ \<Rightarrow> Inr s)"

text \<open>Two relations between the states before and after a visit: entries that pass the gate
  still pass it and a resolved log stays resolved; the log grows by expansions of nodes of
  a given set that were not in the memo, and the memo only grows.\<close>

definition gate_kept :: "InferTensorsVisitor \<Rightarrow> InferTensorsVisitor \<Rightarrow> bool" where
  "gate_kept s s' \<longleftrightarrow>
     (\<forall>n. entry_resolved (tensor_table s n) \<longrightarrow> entry_resolved (tensor_table s' n))
     \<and> (log_resolved s \<longrightarrow> log_resolved s')"

definition inf_steps :: "node_id set \<Rightarrow> InferTensorsVisitor \<Rightarrow> InferTensorsVisitor \<Rightarrow> bool" where
  "inf_steps A s s' \<longleftrightarrow>
     (\<exists>new. expanded s' = expanded s @ new
        \<and> (\<forall>p \<in> set new. fst p \<in> A \<and> visit_counter s (fst p) = 0))
     \<and> (\<forall>n. visit_counter s n \<noteq> 0 \<longrightarrow> visit_counter s' n \<noteq> 0)"


fun operand_source :: "Operand \<Rightarrow> operation_id \<times> nat" where
  "operand_source (Operand opid k) = (opid, k)"



text \<open>The identifiers recorded for a node are those of its operands, position by position;
  a null operand has any identifier. Together with the fact that a node outside the memo,
  other than a parameter, has no identifier yet, this is kept by the traversal; the
  traversal of an expression touches only the entries of its calls, tuples and
  projections.\<close>

definition ids_ok :: "Operand option list \<Rightarrow> (operation_id \<times> nat) list \<Rightarrow> bool" where
  "ids_ok ops ids \<longleftrightarrow>
     length ids = length ops
     \<and> (\<forall>i < length ops. \<forall>l. ops ! i = Some l \<longrightarrow> ids ! i = operand_source l)"



section \<open>An instance of the parameters\<close>

text \<open>
  A small support library and parameter handlers, to run the model on concrete
  functions. The network is the list of the operations added to it, an operation's
  identifier is its position, and the compiled network declares its buffers in the
  order of the network's inputs and outputs. A concatenation of no operand or of a null
  operand, and a split into no part, are not supported.
\<close>

datatype sl_operation =
    InputOp TensorInfo
  | OutputOp Operand
  | ConcatenationOp "Operand option list" ConcatenationInfo
  | SplitOp Operand SplitInfo

fun input_buffers :: "sl_operation list \<Rightarrow> nat \<Rightarrow> InputBufferInfo list" where
  "input_buffers [] i = []"
| "input_buffers (InputOp _ # ops) i = \<lparr>in_SourceOperationId = i\<rparr> # input_buffers ops (Suc i)"
| "input_buffers (_ # ops) i = input_buffers ops (Suc i)"

fun output_buffers :: "sl_operation list \<Rightarrow> OutputBufferInfo list" where
  "output_buffers [] = []"
| "output_buffers (OutputOp (Operand opid k) # ops) =
     \<lparr>out_SourceOperationId = opid, out_SourceOperationOutputIndex = k\<rparr> # output_buffers ops"
| "output_buffers (_ # ops) = output_buffers ops"

definition ref_sl :: "sl_operation list SupportLibrary" where
  "ref_sl =
     \<lparr>CreateNetwork = [],
      AddInput = (\<lambda>net ti. (net @ [InputOp ti], Operand (length net) 0, length net)),
      AddOutput = (\<lambda>net l. net @ [OutputOp l]),
      AddConcatenation = (\<lambda>net layers info.
        if layers = [] \<or> None \<in> set layers
        then Inl (NotSupportedException ''Concatenation is not supported'')
        else Inr (net @ [ConcatenationOp layers info], Operand (length net) 0, length net)),
      AddSplit = (\<lambda>net input info.
        if m_Sizes info = []
        then Inl (NotSupportedException ''Split is not supported'')
        else Inr (net @ [SplitOp input info],
                  map (Operand (length net)) [0..<length (m_Sizes info)], length net)),
      Compile = (\<lambda>net options.
        [\<lparr>GetInputBufferInfos = input_buffers net 0, GetOutputBufferInfos = output_buffers net\<rparr>])\<rparr>"

definition ref_info :: TensorInfo where
  "ref_info =
     \<lparr>m_Dimensions = (1, 2, 2, 4), m_DataType = UINT8_QUANTIZED, m_DataFormat = NHWC,
      m_QuantizationInfo = QuantizationInfo_default\<rparr>"

text \<open>The handlers of the instance: a concatenation asks for one descriptor for each
  field of its tuple argument; a split halves its input along axis 1, and into no part
  when it has a second argument.\<close>

definition ref_api :: EthosnAPI where
  "ref_api =
     \<lparr>Concatenate = (\<lambda>call prm.
        ([], prm\<lparr>input_infos :=
                   (case call of
                      Call _ _ _ (Tuple _ _ flds # _) \<Rightarrow> replicate (length flds) ref_info
                    | Call _ _ _ (Var _ (Some (TupleType tys)) # _) \<Rightarrow>
                        replicate (length tys) ref_info
                    | _ \<Rightarrow> [ref_info])\<rparr>)),
      Split = (\<lambda>call prm.
        ([], prm\<lparr>split_info :=
                   \<lparr>m_SplitAxis = 1,
                    m_Sizes = (case call of Call _ _ _ [_] \<Rightarrow> [2, 2] | _ \<Rightarrow> [])\<rparr>,
                 input_info := ref_info\<rparr>))\<rparr>"

definition ref_config :: EthosnCompilerConfig where
  "ref_config =
     \<lparr>variant = 0, strategy0 = True, strategy1 = True, strategy3 = True, strategy4 = True,
      strategy6 = True, strategy7 = True, dump_ram = False, initial_sram_dump = False,
      block_config_16x16 = True, block_config_32x8 = True, block_config_8x32 = True,
      block_config_8x8 = True, enable_intermediate_compression = True,
      disable_winograd = False, dump_debug_files = False, debug_dir = ''.'',
      enable_cascading = False\<rparr>"

definition ref_ctx :: PassContext where
  "ref_ctx = \<lparr>ctx_config = None, ctx_defaults = ref_config, ctx_variants = [0, 1, 2]\<rparr>"

text \<open>Functions to compile: an operator without a handler; the concatenation of two
  parameters; a split of one parameter into two, returned as it is.\<close>

definition relu_function :: Function where
  "relu_function =
     \<lparr>params = [Var 0 (Some TensorType)],
      body = Call 1 (Some TensorType) (Op 9 ''nn.relu'') [Var 0 (Some TensorType)],
      global_symbol = Some ''ethosn_0''\<rparr>"

definition merge_function :: Function where
  "merge_function =
     \<lparr>params = [Var 0 (Some TensorType), Var 1 (Some TensorType)],
      body = Call 3 (Some TensorType) (Op 10 ''qnn.concatenate'')
               [Tuple 2 (Some (TupleType [TensorType, TensorType]))
                  [Var 0 (Some TensorType), Var 1 (Some TensorType)]],
      global_symbol = Some ''ethosn_0''\<rparr>"

definition split_function :: Function where
  "split_function =
     \<lparr>params = [Var 0 (Some TensorType)],
      body = Call 3 (Some (TupleType [TensorType, TensorType])) (Op 11 ''split'')
               [Var 0 (Some TensorType)],
      global_symbol = Some ''ethosn_0''\<rparr>"

text \<open>Two functions over the same two parameter nodes: one returns the pair of its
  parameters, the other takes and returns them in the other order.\<close>

definition pair_function :: Function where
  "pair_function =
     \<lparr>params = [Var 0 (Some TensorType), Var 1 (Some TensorType)],
      body = Tuple 2 (Some (TupleType [TensorType, TensorType]))
               [Var 0 (Some TensorType), Var 1 (Some TensorType)],
      global_symbol = Some ''ethosn_0''\<rparr>"

definition swapped_function :: Function where
  "swapped_function =
     \<lparr>params = [Var 1 (Some TensorType), Var 0 (Some TensorType)],
      body = Tuple 5 (Some (TupleType [TensorType, TensorType]))
               [Var 1 (Some TensorType), Var 0 (Some TensorType)],
      global_symbol = Some ''ethosn_1''\<rparr>"

text \<open>The output order of a constructed network, for the first artifact of the vendor
  compiler.\<close>

definition output_order :: "'net SupportLibrary \<Rightarrow> CompilationOptions \<Rightarrow> 'net NetworkWithIDs \<Rightarrow> nat list" where
  "output_order sl options nw =
     (case Compile sl (nw_network nw) options of
        [] \<Rightarrow> []
      | c # _ \<Rightarrow> snd (GetInputOutputOrder nw c))"



text \<open>A concatenation of the two parameters that is a field of the tuple arguments of two
  further concatenations, and the visitor after the two parameters have been added as
  network inputs.\<close>

definition shared_node :: expr where
  "shared_node =
     Call 3 (Some TensorType) (Op 10 ''qnn.concatenate'')
       [Tuple 2 (Some (TupleType [TensorType, TensorType]))
          [Var 0 (Some TensorType), Var 1 (Some TensorType)]]"

definition first_consumer :: expr where
  "first_consumer =
     Call 6 (Some TensorType) (Op 10 ''qnn.concatenate'')
       [Tuple 4 (Some (TupleType [TensorType, TensorType]))
          [shared_node, Var 0 (Some TensorType)]]"

definition second_consumer :: expr where
  "second_consumer =
     Call 7 (Some TensorType) (Op 10 ''qnn.concatenate'')
       [Tuple 5 (Some (TupleType [TensorType, TensorType]))
          [shared_node, Var 1 (Some TensorType)]]"

definition shared_function :: Function where
  "shared_function =
     \<lparr>params = [Var 0 (Some TensorType), Var 1 (Some TensorType)],
      body = Tuple 8 (Some (TupleType [TensorType, TensorType]))
               [first_consumer, second_consumer],
      global_symbol = Some ''ethosn_0''\<rparr>"

definition two_inputs :: "sl_operation list ConstructNetworkVisitor" where
  "two_inputs =
     \<lparr>network = [InputOp ref_info, InputOp ref_info],
      operand_table = (\<lambda>_. [])(0 := [Some (Operand 0 0)], 1 := [Some (Operand 1 0)]),
      id_table = (\<lambda>_. [])(0 := [(0, 0)], 1 := [(1, 0)]),
      cn_tensor_table = Map.empty, cn_visit_counter = (\<lambda>_. 0), translated = []\<rparr>"

text \<open>The two projections of the split of \<open>split_function\<close>, and an inference visitor in
  which their consumer has resolved the entry of each.\<close>

definition first_projection :: expr where
  "first_projection = TupleGetItem 4 (Some TensorType) (body split_function) 1"

definition second_projection :: expr where
  "second_projection = TupleGetItem 5 (Some TensorType) (body split_function) 0"

definition projections_ready :: InferTensorsVisitor where
  "projections_ready =
     \<lparr>tensor_table = [4 \<mapsto> [ref_info], 5 \<mapsto> [ref_info]], visit_counter = (\<lambda>_. 0),
      expanded = []\<rparr>"

text \<open>A function that returns the two projections of the split as a pair.\<close>

definition projections_function :: Function where
  "projections_function =
     \<lparr>params = [Var 0 (Some TensorType)],
      body = Tuple 6 (Some (TupleType [TensorType, TensorType]))
               [first_projection, second_projection],
      global_symbol = Some ''ethosn_0''\<rparr>"




section \<open>Seeding of the tensor table\<close>

text \<open>
  C3 (as amended): when metadata inference begins on a function body whose checked type
  is defined, the body's entry of the tensor table is initialised with one descriptor
  for each logical output of the body (one for a tensor type, N for an N-tuple type),
  and nothing else is in the table. The descriptors are the placeholder
  \<^verbatim>\<open>TensorInfo({1, 1, 1, 1}, UINT8_QUANTIZED, NHWC, QuantizationInfo())\<close>, which differs
  from the default-constructed descriptor, so that the gate lets the body through.
\<close>

theorem Infer_init_placeholders:
  assumes "checked_type expr = Some ty"
  shows "\<exists>s0. Infer_init expr s = Inr s0
      \<and> (case tensor_table s0 (node expr) of None \<Rightarrow> [] | Some infos \<Rightarrow> infos) =
          replicate (case ty of TupleType tys \<Rightarrow> length tys | TensorType \<Rightarrow> 1)
            \<lparr>m_Dimensions = (1, 1, 1, 1), m_DataType = UINT8_QUANTIZED, m_DataFormat = NHWC,
             m_QuantizationInfo = QuantizationInfo_default\<rparr>
      \<and> TensorInfo_default \<notin> set (case tensor_table s0 (node expr) of None \<Rightarrow> [] | Some infos \<Rightarrow> infos)
      \<and> dom (tensor_table s0) \<subseteq> {node expr}"
  using assms
  by (auto simp: Infer_init_def output_size_def TensorInfo_default_def split: rtype.splits)

theorem Infer_init_placeholders_witness:
  "checked_type (Var 0 (Some (TupleType [TensorType, TensorType]))) = Some (TupleType [TensorType, TensorType])
   \<and> (\<exists>s0. Infer_init (Var 0 (Some (TupleType [TensorType, TensorType]))) InferTensorsVisitor_new = Inr s0
      \<and> (case tensor_table s0 0 of None \<Rightarrow> [] | Some infos \<Rightarrow> infos) =
          replicate 2
            \<lparr>m_Dimensions = (1, 1, 1, 1), m_DataType = UINT8_QUANTIZED, m_DataFormat = NHWC,
             m_QuantizationInfo = QuantizationInfo_default\<rparr>
      \<and> TensorInfo_default \<notin> set (case tensor_table s0 0 of None \<Rightarrow> [] | Some infos \<Rightarrow> infos))"
  using Infer_init_placeholders [of "Var 0 (Some (TupleType [TensorType, TensorType]))"
      "TupleType [TensorType, TensorType]" InferTensorsVisitor_new]
  by (auto simp: numeral_2_eq_2)

text \<open>The claim as written fails: for a body of tensor type, the entry exists and is not
  one default-constructed descriptor.\<close>

theorem Infer_init_unresolved_counterexample:
  "\<exists>s0. Infer_init (Var 0 (Some TensorType)) InferTensorsVisitor_new = Inr s0
      \<and> tensor_table s0 0 \<noteq> Some (replicate 1 TensorInfo_default)
      \<and> tensor_table s0 0 \<noteq> None"
  by (simp add: Infer_init_def output_size_def TensorInfo_default_def)

section \<open>Errors of the operator handlers\<close>

lemma InferCall_unknown:
  assumes "\<not> IsEthosnOp (Call n ty op args) ''qnn.concatenate''"
    and "\<not> IsEthosnOp (Call n ty op args) ''split''"
  shows "InferCall api (Call n ty op args) s = Inl (FatalError n [''unknown operator''])"
  using assms by (simp add: InferCall_def)

lemma HandleCall_unknown:
  assumes "\<not> IsEthosnOp (Call n ty op args) ''qnn.concatenate''"
    and "\<not> IsEthosnOp (Call n ty op args) ''split''"
  shows "HandleCall api sl (Call n ty op args) cs = Inl (FatalError n [''unknown operator''])"
  using assms by (simp add: HandleCall_def ReportFatalError_def)

lemma Infer_unknown_root:
  assumes "\<not> IsEthosnOp (Call n (Some t) op args) ''qnn.concatenate''"
    and "\<not> IsEthosnOp (Call n (Some t) op args) ''split''"
    and "0 < output_size t"
  shows "InferTensors api (Call n (Some t) op args) = Inl (FatalError n [''unknown operator''])"
  using assms
  by (simp add: InferTensors_def Infer_def Infer_init_def InferTensorsVisitor_new_def
      InferCall_def TensorInfo_default_def VisitInferred.simps VisitExpr.simps)

lemma Compile_unknown_root:
  assumes "\<not> IsEthosnOp (Call n (Some t) op args) ''qnn.concatenate''"
    and "\<not> IsEthosnOp (Call n (Some t) op args) ''split''"
    and "0 < output_size t"
  shows "CompileEthosnFunc api sl ctx name_hint
           \<lparr>params = ps, body = Call n (Some t) op args, global_symbol = g\<rparr>
         = ([], Inl (FatalError n [''unknown operator'']))"
  by (simp add: Infer_unknown_root [OF assms] CompileEthosnFunc_def ConstructNetwork_def
      Construct_def)

text \<open>
  C6: for a call whose operator is neither \<^verbatim>\<open>qnn.concatenate\<close> nor \<^verbatim>\<open>split\<close> (a callee
  that is not a primitive operator included), the dispatch of metadata inference
  (\<^verbatim>\<open>InferCall\<close>, and so \<^verbatim>\<open>VisitExpr_\<close> of the call) and the dispatch of network
  construction (\<^verbatim>\<open>HandleCall\<close>, and so \<^verbatim>\<open>VisitExpr_\<close> of the call) both abort with the
  fatal error "unknown operator" attributed to that call; the compilation of a function
  with such a call for its body returns that error, without any invocation of the
  vendor compiler.
\<close>

theorem unknown_operator_is_fatal:
  assumes "\<not> IsEthosnOp (Call n ty op args) ''qnn.concatenate''"
    and "\<not> IsEthosnOp (Call n ty op args) ''split''"
  shows "InferCall api (Call n ty op args) s = Inl (FatalError n [''unknown operator''])
     \<and> VisitExpr_CallNode api (Call n ty op args) s = Inl (FatalError n [''unknown operator''])
     \<and> HandleCall api sl (Call n ty op args) cs = Inl (FatalError n [''unknown operator''])
     \<and> CN_VisitExpr_CallNode api sl (Call n ty op args) cs = Inl (FatalError n [''unknown operator''])
     \<and> (\<forall>t. ty = Some t \<and> 0 < output_size t \<longrightarrow>
          CompileEthosnFunc api sl ctx name_hint
            \<lparr>params = ps, body = Call n ty op args, global_symbol = g\<rparr>
            = ([], Inl (FatalError n [''unknown operator''])))"
proof -
  have "CompileEthosnFunc api sl ctx name_hint
          \<lparr>params = ps, body = Call n ty op args, global_symbol = g\<rparr>
        = ([], Inl (FatalError n [''unknown operator'']))"
    if "ty = Some t" and "0 < output_size t" for t
    using Compile_unknown_root [of n t op args] assms that by simp
  then show ?thesis
    by (simp add: InferCall_unknown [OF assms] HandleCall_unknown [OF assms]
        CN_VisitExpr_CallNode_def)
qed

theorem unknown_operator_is_fatal_witness:
  "\<not> IsEthosnOp (body relu_function) ''qnn.concatenate''
   \<and> \<not> IsEthosnOp (body relu_function) ''split''
   \<and> InferCall ref_api (body relu_function) InferTensorsVisitor_new
       = Inl (FatalError 1 [''unknown operator''])
   \<and> HandleCall ref_api ref_sl (body relu_function) (ConstructNetworkVisitor_new ref_sl)
       = Inl (FatalError 1 [''unknown operator''])
   \<and> CompileEthosnFunc ref_api ref_sl ref_ctx ''ethosn_0'' relu_function
       = ([], Inl (FatalError 1 [''unknown operator'']))"
  using unknown_operator_is_fatal [of 1 "Some TensorType" "Op 9 ''nn.relu''"
      "[Var 0 (Some TensorType)]" ref_api InferTensorsVisitor_new ref_sl
      "ConstructNetworkVisitor_new ref_sl" ref_ctx "''ethosn_0''" "[Var 0 (Some TensorType)]"
      "Some ''ethosn_0''"]
  by (simp add: relu_function_def output_size_def)

lemma MakeConcatenateLayer_not_raw:
  "MakeConcatenateLayer api sl call out s \<noteq> Inl (Uncaught (NotSupportedException w))"
  by (auto simp: MakeConcatenateLayer_def split: expr.splits prod.splits list.splits sum.splits
      sl_exception.splits)

lemma MakeSplitLayer_not_raw:
  "MakeSplitLayer api sl call outs s \<noteq> Inl (Uncaught (NotSupportedException w))"
  by (auto simp: MakeSplitLayer_def GetTensorInfo_def split: expr.splits prod.splits list.splits sum.splits
      sl_exception.splits option.splits)

lemma HandleCall_not_raw:
  "HandleCall api sl call s \<noteq> Inl (Uncaught (NotSupportedException w))"
  using MakeConcatenateLayer_not_raw [of api sl call "(None, 0)" s w]
    MakeSplitLayer_not_raw [of api sl call "\<lparr>tensors = [], operationId = 0\<rparr>" s w]
  by (auto simp: HandleCall_def ReportFatalError_def split: sum.splits prod.splits if_splits)

lemma MakeConcatenateLayer_converts:
  assumes "Concatenate api (Call n ty op (a0 # rest)) ConcatenateParams_default = ([], prm)"
    and "AddConcatenation sl (network s) (operand_table s (node a0)) (concat_info prm)
           = Inl (NotSupportedException what)"
  shows "MakeConcatenateLayer api sl (Call n ty op (a0 # rest)) out s = Inr ([what], out, s)"
  using assms by (simp add: MakeConcatenateLayer_def)

lemma MakeSplitLayer_converts:
  assumes "GetTensorInfo (cn_tensor_table s) (Call n ty op (a0 # rest)) = Inr ti"
    and "Split api (Call n ty op (a0 # rest)) (SplitParams_default\<lparr>input_info := ti\<rparr>) = ([], prm)"
    and "operand_table s (node a0) = Some input # others"
    and "AddSplit sl (network s) input (split_info prm) = Inl (NotSupportedException what)"
  shows "MakeSplitLayer api sl (Call n ty op (a0 # rest)) outs s = Inr ([what], outs, s)"
  using assms by (simp add: MakeSplitLayer_def)

text \<open>
  C7: a \<^verbatim>\<open>NotSupportedException\<close> thrown by \<^verbatim>\<open>AddConcatenation\<close> or \<^verbatim>\<open>AddSplit\<close> never
  leaves \<^verbatim>\<open>MakeConcatenateLayer\<close>, \<^verbatim>\<open>MakeSplitLayer\<close> or \<^verbatim>\<open>HandleCall\<close> as an exception:
  the handler returns normally, with the \<^verbatim>\<open>EthosnError\<close> made of the exception's message
  and the visitor unchanged, and \<^verbatim>\<open>HandleCall\<close> reports it as the same node-attributed
  fatal error as an error of the parameter handlers.
\<close>

theorem vendor_exception_is_converted:
  assumes c: "call = Call n ty op (a0 # rest)"
  shows
   "(\<forall>w. MakeConcatenateLayer api sl call out s \<noteq> Inl (Uncaught (NotSupportedException w)))
  \<and> (\<forall>w. MakeSplitLayer api sl call outs s \<noteq> Inl (Uncaught (NotSupportedException w)))
  \<and> (\<forall>w. HandleCall api sl call s \<noteq> Inl (Uncaught (NotSupportedException w)))
  \<and> (\<forall>prm what.
        Concatenate api call ConcatenateParams_default = ([], prm)
        \<and> AddConcatenation sl (network s) (operand_table s (node a0)) (concat_info prm)
            = Inl (NotSupportedException what)
      \<longrightarrow> MakeConcatenateLayer api sl call out s = Inr ([what], out, s)
        \<and> (IsEthosnOp call ''qnn.concatenate''
             \<longrightarrow> HandleCall api sl call s = Inl (FatalError n [what])))
  \<and> (\<forall>ti prm input others what.
        GetTensorInfo (cn_tensor_table s) call = Inr ti
        \<and> Split api call (SplitParams_default\<lparr>input_info := ti\<rparr>) = ([], prm)
        \<and> operand_table s (node a0) = Some input # others
        \<and> AddSplit sl (network s) input (split_info prm) = Inl (NotSupportedException what)
      \<longrightarrow> MakeSplitLayer api sl call outs s = Inr ([what], outs, s)
        \<and> (\<not> IsEthosnOp call ''qnn.concatenate'' \<and> IsEthosnOp call ''split''
             \<longrightarrow> HandleCall api sl call s = Inl (FatalError n [what])))"
proof (intro conjI allI impI)
  fix prm what
  assume h: "Concatenate api call ConcatenateParams_default = ([], prm)
        \<and> AddConcatenation sl (network s) (operand_table s (node a0)) (concat_info prm)
            = Inl (NotSupportedException what)"
  show "MakeConcatenateLayer api sl call out s = Inr ([what], out, s)"
    using h MakeConcatenateLayer_converts [of api n ty op a0 rest prm sl s what out] c by simp
  show "HandleCall api sl call s = Inl (FatalError n [what])" if "IsEthosnOp call ''qnn.concatenate''"
    using h that MakeConcatenateLayer_converts [of api n ty op a0 rest prm sl s what "(None, 0)"] c
    by (simp add: HandleCall_def ReportFatalError_def)
next
  fix ti prm input others what
  assume h: "GetTensorInfo (cn_tensor_table s) call = Inr ti
        \<and> Split api call (SplitParams_default\<lparr>input_info := ti\<rparr>) = ([], prm)
        \<and> operand_table s (node a0) = Some input # others
        \<and> AddSplit sl (network s) input (split_info prm) = Inl (NotSupportedException what)"
  show "MakeSplitLayer api sl call outs s = Inr ([what], outs, s)"
    using h MakeSplitLayer_converts [of s n ty op a0 rest ti api prm input others sl what outs] c
    by simp
  show "HandleCall api sl call s = Inl (FatalError n [what])"
    if "\<not> IsEthosnOp call ''qnn.concatenate'' \<and> IsEthosnOp call ''split''"
    using h that
      MakeSplitLayer_converts [of s n ty op a0 rest ti api prm input others sl what
        "\<lparr>tensors = [], operationId = 0\<rparr>"] c
    by (simp add: HandleCall_def ReportFatalError_def)
qed (simp_all add: MakeConcatenateLayer_not_raw MakeSplitLayer_not_raw HandleCall_not_raw)

theorem vendor_exception_is_converted_witness:
  "HandleCall ref_api ref_sl (body merge_function) (ConstructNetworkVisitor_new ref_sl)
     = Inl (FatalError 3 [''Concatenation is not supported''])
   \<and> MakeSplitLayer ref_api ref_sl
        (Call 3 (Some TensorType) (Op 11 ''split'') [Var 0 (Some TensorType), Var 1 (Some TensorType)])
        \<lparr>tensors = [], operationId = 0\<rparr>
        ((ConstructNetworkVisitor_new ref_sl)\<lparr>operand_table := (\<lambda>_. [Some (Operand 0 0)])\<rparr>)
     = Inr ([''Split is not supported''], \<lparr>tensors = [], operationId = 0\<rparr>,
            (ConstructNetworkVisitor_new ref_sl)\<lparr>operand_table := (\<lambda>_. [Some (Operand 0 0)])\<rparr>)"
proof -
  have 1: "HandleCall ref_api ref_sl (body merge_function) (ConstructNetworkVisitor_new ref_sl)
     = Inl (FatalError 3 [''Concatenation is not supported''])"
    using vendor_exception_is_converted [of "body merge_function" 3 "Some TensorType"
        "Op 10 ''qnn.concatenate''"
        "Tuple 2 (Some (TupleType [TensorType, TensorType]))
                  [Var 0 (Some TensorType), Var 1 (Some TensorType)]" "[]"
        ref_api ref_sl "(None, 0)" "ConstructNetworkVisitor_new ref_sl"]
    by (simp add: merge_function_def ref_api_def ref_sl_def ConstructNetworkVisitor_new_def)
  have 2: "MakeSplitLayer ref_api ref_sl
        (Call 3 (Some TensorType) (Op 11 ''split'') [Var 0 (Some TensorType), Var 1 (Some TensorType)])
        \<lparr>tensors = [], operationId = 0\<rparr>
        ((ConstructNetworkVisitor_new ref_sl)\<lparr>operand_table := (\<lambda>_. [Some (Operand 0 0)])\<rparr>)
     = Inr ([''Split is not supported''], \<lparr>tensors = [], operationId = 0\<rparr>,
            (ConstructNetworkVisitor_new ref_sl)\<lparr>operand_table := (\<lambda>_. [Some (Operand 0 0)])\<rparr>)"
    using vendor_exception_is_converted [of
        "Call 3 (Some TensorType) (Op 11 ''split'') [Var 0 (Some TensorType), Var 1 (Some TensorType)]"
        3 "Some TensorType" "Op 11 ''split''" "Var 0 (Some TensorType)" "[Var 1 (Some TensorType)]"
        ref_api ref_sl _ "(ConstructNetworkVisitor_new ref_sl)\<lparr>operand_table := (\<lambda>_. [Some (Operand 0 0)])\<rparr>"
        "\<lparr>tensors = [], operationId = 0\<rparr>"]
    by (simp add: ref_api_def ref_sl_def ConstructNetworkVisitor_new_def GetTensorInfo_def)
  show ?thesis using 1 2 by (rule conjI)
qed

section \<open>The compiler driver\<close>

text \<open>
  C9: when the network has been constructed and the options made, the vendor compiler
  is invoked exactly once, with that network and those options; if it returns no
  candidate the compilation aborts with a fatal error, and otherwise the first
  candidate is the one packaged in the result, with the name and the two orders.
\<close>

theorem CompileEthosnFunc_compiles_once:
  assumes "ConstructNetwork api sl func = Inr nw" and "CreateOptions ctx = Inr options"
  shows "fst (CompileEthosnFunc api sl ctx name_hint func) = [(nw_network nw, options)]
     \<and> (Compile sl (nw_network nw) options = [] \<longrightarrow>
          snd (CompileEthosnFunc api sl ctx name_hint func) =
            Inl (CheckFailed ''Ethos-N compiler failed to compile network''))
     \<and> (\<forall>c cs. Compile sl (nw_network nw) options = c # cs \<longrightarrow>
          snd (CompileEthosnFunc api sl ctx name_hint func) =
            Inr \<lparr>ocn_name = name_hint, ocn_cmm = c,
                 ocn_inputs = fst (GetInputOutputOrder nw c),
                 ocn_outputs = snd (GetInputOutputOrder nw c)\<rparr>)"
  using assms by (auto simp: CompileEthosnFunc_def split: list.splits)

theorem CompileEthosnFunc_compiles_once_witness:
  "\<exists>nw options c.
     ConstructNetwork ref_api ref_sl merge_function = Inr nw
     \<and> CreateOptions ref_ctx = Inr options
     \<and> Compile ref_sl (nw_network nw) options = [c]
     \<and> fst (CompileEthosnFunc ref_api ref_sl ref_ctx ''ethosn_0'' merge_function)
         = [(nw_network nw, options)]
     \<and> snd (CompileEthosnFunc ref_api ref_sl ref_ctx ''ethosn_0'' merge_function)
         = Inr \<lparr>ocn_name = ''ethosn_0'', ocn_cmm = c, ocn_inputs = [0, 1], ocn_outputs = [0]\<rparr>"
proof -
  have "case ConstructNetwork ref_api ref_sl merge_function of Inl _ \<Rightarrow> False | Inr _ \<Rightarrow> True"
    by code_simp
  then obtain nw where nw: "ConstructNetwork ref_api ref_sl merge_function = Inr nw"
    by (auto split: sum.splits)
  have "case CreateOptions ref_ctx of Inl _ \<Rightarrow> False | Inr _ \<Rightarrow> True"
    by code_simp
  then obtain options where options: "CreateOptions ref_ctx = Inr options"
    by (auto split: sum.splits)
  obtain c where c: "Compile ref_sl (nw_network nw) options = [c]"
    by (simp add: ref_sl_def)
  have r: "snd (CompileEthosnFunc ref_api ref_sl ref_ctx ''ethosn_0'' merge_function)
         = Inr \<lparr>ocn_name = ''ethosn_0'', ocn_cmm = c,
                ocn_inputs = fst (GetInputOutputOrder nw c),
                ocn_outputs = snd (GetInputOutputOrder nw c)\<rparr>"
    using CompileEthosnFunc_compiles_once [OF nw options, of "''ethosn_0''"] c by simp
  have o: "(case snd (CompileEthosnFunc ref_api ref_sl ref_ctx ''ethosn_0'' merge_function) of
              Inl _ \<Rightarrow> False | Inr r \<Rightarrow> ocn_inputs r = [0, 1] \<and> ocn_outputs r = [0])"
    by code_simp
  have "fst (CompileEthosnFunc ref_api ref_sl ref_ctx ''ethosn_0'' merge_function)
         = [(nw_network nw, options)]"
    using CompileEthosnFunc_compiles_once [OF nw options, of "''ethosn_0''"] by simp
  moreover have "snd (CompileEthosnFunc ref_api ref_sl ref_ctx ''ethosn_0'' merge_function)
         = Inr \<lparr>ocn_name = ''ethosn_0'', ocn_cmm = c, ocn_inputs = [0, 1], ocn_outputs = [0]\<rparr>"
    using r o by simp
  ultimately show ?thesis using nw options c by blast
qed

section \<open>Projections in metadata inference\<close>

lemma write_projection_writes:
  assumes "tt n = Some (d # ds)"
    and "checked_type tuple = Some (TupleType tys)"
    and "0 \<le> index" and "nat index < length tys"
    and "node tuple \<noteq> n"
    and "\<forall>entry. tt (node tuple) = Some entry \<longrightarrow> length entry = length tys"
  shows "write_projection (TupleGetItem n ty tuple index) tt =
     Inr (tt(node tuple \<mapsto> (projected_entry tt tuple (length tys))[nat index := d]))"
  using assms
  by (cases "tt (node tuple)") (auto simp: write_projection_def projected_entry_def)

lemma default_in_updated:
  assumes "i < length entry"
  shows "TensorInfo_default \<notin> set (entry[i := d]) \<longleftrightarrow>
         d \<noteq> TensorInfo_default \<and> (\<forall>j < length entry. j \<noteq> i \<longrightarrow> entry ! j \<noteq> TensorInfo_default)"
proof
  assume a: "TensorInfo_default \<notin> set (entry[i := d])"
  have "d \<in> set (entry[i := d])" using assms by (simp add: set_update_memI)
  moreover have "entry ! j \<noteq> TensorInfo_default" if "j < length entry" "j \<noteq> i" for j
  proof -
    have "entry[i := d] ! j \<in> set (entry[i := d])" using that by (intro nth_mem) simp
    then show ?thesis using that a by auto
  qed
  ultimately show "d \<noteq> TensorInfo_default \<and> (\<forall>j < length entry. j \<noteq> i \<longrightarrow> entry ! j \<noteq> TensorInfo_default)"
    using a by auto
next
  assume b: "d \<noteq> TensorInfo_default \<and> (\<forall>j < length entry. j \<noteq> i \<longrightarrow> entry ! j \<noteq> TensorInfo_default)"
  show "TensorInfo_default \<notin> set (entry[i := d])"
  proof
    assume "TensorInfo_default \<in> set (entry[i := d])"
    then obtain j where j: "j < length entry" "entry[i := d] ! j = TensorInfo_default"
      by (auto simp: in_set_conv_nth)
    then show False using b by (cases "j = i") auto
  qed
qed

text \<open>
  C4: metadata inference visits a projection \<open>TupleGetItem n ty tuple index\<close> whose own
  entry is the single resolved descriptor \<open>d\<close>. If the tuple has no entry yet, an entry
  of as many unresolved descriptors as the tuple type has fields is created; \<open>d\<close> is
  written at \<open>index\<close>; then the tuple is visited through the gate, that is, exactly when
  every other slot of its entry is resolved already, and otherwise the visit ends with
  the updated table.
\<close>

theorem VisitExpr_TupleGetItemNode_writes_slot:
  assumes "tensor_table s n = Some [d]" and "d \<noteq> TensorInfo_default"
    and "checked_type tuple = Some (TupleType tys)"
    and "0 \<le> index" and "nat index < length tys"
    and "node tuple \<noteq> n"
    and "\<forall>entry. tensor_table s (node tuple) = Some entry \<longrightarrow> length entry = length tys"
  shows "VisitExpr_TupleGetItemNode api (TupleGetItem n ty tuple index) s =
          (if TensorInfo_default
                \<in> set ((projected_entry (tensor_table s) tuple (length tys))[nat index := d])
           then Inr (s\<lparr>tensor_table := (tensor_table s)
                       (node tuple \<mapsto> (projected_entry (tensor_table s) tuple (length tys))[nat index := d])\<rparr>)
           else VisitExpr api tuple
                  (s\<lparr>tensor_table := (tensor_table s)
                       (node tuple \<mapsto> (projected_entry (tensor_table s) tuple (length tys))[nat index := d])\<rparr>))
     \<and> (TensorInfo_default
           \<notin> set ((projected_entry (tensor_table s) tuple (length tys))[nat index := d])
         \<longleftrightarrow> (\<forall>j < length tys. j \<noteq> nat index \<longrightarrow>
                projected_entry (tensor_table s) tuple (length tys) ! j \<noteq> TensorInfo_default))
     \<and> length (projected_entry (tensor_table s) tuple (length tys)) = length tys
     \<and> (tensor_table s (node tuple) = None \<longrightarrow>
          projected_entry (tensor_table s) tuple (length tys) = replicate (length tys) TensorInfo_default)"
proof -
  let ?e = "projected_entry (tensor_table s) tuple (length tys)"
  have len: "length ?e = length tys"
    using assms(7) by (auto simp: projected_entry_def split: option.splits)
  have w: "write_projection (TupleGetItem n ty tuple index) (tensor_table s) =
     Inr ((tensor_table s)(node tuple \<mapsto> ?e[nat index := d]))"
    using assms by (intro write_projection_writes) auto
  have g: "TensorInfo_default \<notin> set (?e[nat index := d]) \<longleftrightarrow>
         (\<forall>j < length tys. j \<noteq> nat index \<longrightarrow> ?e ! j \<noteq> TensorInfo_default)"
    using default_in_updated [of "nat index" ?e d] assms(2,5) len by simp
  have 1: "VisitExpr_TupleGetItemNode api (TupleGetItem n ty tuple index) s =
          (if TensorInfo_default \<in> set (?e[nat index := d])
           then Inr (s\<lparr>tensor_table := (tensor_table s)(node tuple \<mapsto> ?e[nat index := d])\<rparr>)
           else VisitExpr api tuple
                  (s\<lparr>tensor_table := (tensor_table s)(node tuple \<mapsto> ?e[nat index := d])\<rparr>))"
    by (simp add: w VisitInferred.simps)
  have 4: "tensor_table s (node tuple) = None \<longrightarrow> ?e = replicate (length tys) TensorInfo_default"
    by (simp add: projected_entry_def)
  show ?thesis using 1 g len 4 by blast
qed

theorem VisitExpr_TupleGetItemNode_writes_slot_witness:
  "VisitExpr_TupleGetItemNode ref_api (TupleGetItem 4 (Some TensorType) (body split_function) 1)
     (InferTensorsVisitor_new\<lparr>tensor_table := [4 \<mapsto> [ref_info]]\<rparr>)
   = Inr (InferTensorsVisitor_new\<lparr>tensor_table := [4 \<mapsto> [ref_info], 3 \<mapsto> [TensorInfo_default, ref_info]]\<rparr>)"
  using VisitExpr_TupleGetItemNode_writes_slot [of "InferTensorsVisitor_new\<lparr>tensor_table := [4 \<mapsto> [ref_info]]\<rparr>"
      4 ref_info "body split_function" "[TensorType, TensorType]" 1 ref_api "Some TensorType"]
  by (simp add: split_function_def projected_entry_def ref_info_def TensorInfo_default_def
      InferTensorsVisitor_new_def fun_upd_twist del: VisitExpr_TupleGetItemNode.simps)

section \<open>Tuples in network construction\<close>

lemma tuple_fields_appends:
  assumes "\<forall>arg \<in> set flds. node arg \<noteq> n"
    and "\<forall>arg \<in> set flds. length (operand_table s (node arg)) = 1 \<longrightarrow> id_table s (node arg) \<noteq> []"
  shows "tuple_fields n flds s =
     Inr (s\<lparr>operand_table := (operand_table s)(n := operand_table s n @ map (field_operand s) flds),
            id_table := (id_table s)(n := id_table s n @ map (field_id s) flds)\<rparr>)"
  using assms
proof (induction flds arbitrary: s)
  case Nil
  then show ?case by simp
next
  case (Cons arg rest)
  let ?s1 = "s\<lparr>operand_table := (operand_table s)(n := operand_table s n @ [field_operand s arg]),
               id_table := (id_table s)(n := id_table s n @ [field_id s arg])\<rparr>"
  have ne: "node arg \<noteq> n" using Cons.prems by simp
  have step: "tuple_fields n (arg # rest) s = tuple_fields n rest ?s1"
    using Cons.prems(2) by (auto simp: field_operand_def field_id_def split: list.splits)
  have same: "map (field_operand ?s1) rest = map (field_operand s) rest"
       "map (field_id ?s1) rest = map (field_id s) rest"
    using Cons.prems(1) by (auto simp: field_operand_def field_id_def)
  have pre: "\<forall>a \<in> set rest. node a \<noteq> n"
    "\<forall>a \<in> set rest. length (operand_table ?s1 (node a)) = 1 \<longrightarrow> id_table ?s1 (node a) \<noteq> []"
    using Cons.prems by auto
  have ih: "tuple_fields n rest ?s1 =
     Inr (?s1\<lparr>operand_table := (operand_table ?s1)(n := operand_table ?s1 n @ map (field_operand ?s1) rest),
            id_table := (id_table ?s1)(n := id_table ?s1 n @ map (field_id ?s1) rest)\<rparr>)"
    by (rule Cons.IH [OF pre])
  have eq: "?s1\<lparr>operand_table := (operand_table ?s1)(n := operand_table ?s1 n @ map (field_operand ?s1) rest),
            id_table := (id_table ?s1)(n := id_table ?s1 n @ map (field_id ?s1) rest)\<rparr>
     = s\<lparr>operand_table := (operand_table s)(n := operand_table s n @ map (field_operand s) (arg # rest)),
            id_table := (id_table s)(n := id_table s n @ map (field_id s) (arg # rest))\<rparr>"
    unfolding same by simp
  show ?case by (simp only: step ih eq)
qed

text \<open>
  C5: network construction visits a tuple whose entries are still empty (a node is
  visited once) and none of whose fields is the tuple itself. For each field in order,
  the field's only operand and its identifier are copied when the field's operand entry
  has exactly one element, and a null operand with the identifier (0, 0) is recorded
  otherwise; the two entries of the tuple then have as many elements as the tuple has
  fields, and nothing else changes.
\<close>

theorem VisitExpr_TupleNode_entries:
  assumes "\<forall>arg \<in> set flds. node arg \<noteq> n"
    and "\<forall>arg \<in> set flds. length (operand_table s (node arg)) = 1 \<longrightarrow> id_table s (node arg) \<noteq> []"
    and "operand_table s n = []" and "id_table s n = []"
  shows "\<exists>s'. CN_VisitExpr_TupleNode (Tuple n ty flds) s = Inr s'
     \<and> operand_table s' n =
         map (\<lambda>arg. if length (operand_table s (node arg)) = 1
                     then hd (operand_table s (node arg)) else None) flds
     \<and> id_table s' n =
         map (\<lambda>arg. if length (operand_table s (node arg)) = 1
                     then hd (id_table s (node arg)) else (0, 0)) flds
     \<and> length (operand_table s' n) = length flds
     \<and> length (id_table s' n) = length flds
     \<and> (\<forall>m. m \<noteq> n \<longrightarrow> operand_table s' m = operand_table s m \<and> id_table s' m = id_table s m)
     \<and> network s' = network s"
  using tuple_fields_appends [OF assms(1,2)] assms(3,4)
  by (simp add: CN_VisitExpr_TupleNode_def field_operand_def field_id_def)

theorem VisitExpr_TupleNode_entries_witness:
  "\<exists>s'. CN_VisitExpr_TupleNode
          (Tuple 2 (Some (TupleType [TensorType, TensorType]))
             [Var 0 (Some TensorType), Var 1 (Some (TupleType [TensorType, TensorType]))])
          ((ConstructNetworkVisitor_new ref_sl)
             \<lparr>operand_table := (\<lambda>_. [])(0 := [Some (Operand 0 0)],
                                          1 := [Some (Operand 1 0), Some (Operand 1 1)]),
              id_table := (\<lambda>_. [])(0 := [(0, 0)], 1 := [(1, 0), (1, 1)])\<rparr>) = Inr s'
     \<and> operand_table s' 2 = [Some (Operand 0 0), None]
     \<and> id_table s' 2 = [(0, 0), (0, 0)]"
  using VisitExpr_TupleNode_entries [of
      "[Var 0 (Some TensorType), Var 1 (Some (TupleType [TensorType, TensorType]))]" 2
      "(ConstructNetworkVisitor_new ref_sl)
             \<lparr>operand_table := (\<lambda>_. [])(0 := [Some (Operand 0 0)],
                                          1 := [Some (Operand 1 0), Some (Operand 1 1)]),
              id_table := (\<lambda>_. [])(0 := [(0, 0)], 1 := [(1, 0), (1, 1)])\<rparr>"
      "Some (TupleType [TensorType, TensorType])"]
  by (auto simp: ConstructNetworkVisitor_new_def)

section \<open>Tables from one compilation to the next\<close>




text \<open>The identifier table and the memo belong to the visitor and \<^verbatim>\<open>Construct\<close> leaves them
  as they are: a visitor that has compiled \<open>pair_function\<close> is not fit for a second
  compilation. \<^verbatim>\<open>ConstructNetwork\<close> never runs \<^verbatim>\<open>Construct\<close> twice on one visitor.\<close>

lemma Construct_on_used_visitor:
  "(case CreateOptions ref_ctx of
      Inl _ \<Rightarrow> False
    | Inr options \<Rightarrow>
        (case Construct ref_api ref_sl pair_function (ConstructNetworkVisitor_new ref_sl) of
           Inl _ \<Rightarrow> False
         | Inr (nw1, s1) \<Rightarrow>
             (case (Construct ref_api ref_sl pair_function s1,
                    Construct ref_api ref_sl swapped_function s1,
                    Construct ref_api ref_sl swapped_function (ConstructNetworkVisitor_new ref_sl)) of
                (Inr (nw2, s2), Inr (nw3, s3), Inr (nw4, s4)) \<Rightarrow>
                  id_table s1 0 = [(0, 0)]
                  \<and> id_table s2 0 = [(0, 0), (0, 0)]
                  \<and> operand_table s2 0 = [Some (Operand 0 0)]
                  \<and> output_order ref_sl options nw1 = [0, 1]
                  \<and> output_order ref_sl options nw2 = []
                  \<and> id_table s3 0 = [(0, 0), (1, 0)]
                  \<and> id_table s4 0 = [(1, 0)]
                  \<and> output_order ref_sl options nw3 = [1, 0]
                  \<and> output_order ref_sl options nw4 = [0, 1]
              | _ \<Rightarrow> False)))"
  by code_simp

section \<open>Sharing in network construction\<close>

lemma for_each_rel:
  assumes "\<And>u. Q u u"
    and "\<And>a b c. Q a b \<Longrightarrow> Q b c \<Longrightarrow> Q a c"
    and "\<And>x u u'. x \<in> set xs \<Longrightarrow> f x u = Inr u' \<Longrightarrow> Q u u'"
    and "for_each f xs s = Inr s'"
  shows "Q s s'"
  using assms(3,4)
proof (induction xs arbitrary: s)
  case Nil
  then show ?case using assms(1) by simp
next
  case (Cons x xs)
  from Cons.prems(2) obtain s1 where 1: "f x s = Inr s1" and 2: "for_each f xs s1 = Inr s'"
    by (auto split: sum.splits)
  have "Q s s1" using Cons.prems(1) [of x s s1] 1 by simp
  moreover have "Q s1 s'"
  proof (rule Cons.IH [OF _ 2])
    fix y u u' assume "y \<in> set xs" "f y u = Inr u'"
    then show "Q u u'" using Cons.prems(1) [of y u u'] by simp
  qed
  ultimately show ?case using assms(2) by blast
qed

lemma MakeConcatenateLayer_frame:
  assumes "MakeConcatenateLayer api sl call out s = Inr (err, out', s')"
  shows "same_tables s s' n \<and> operand_table s' = operand_table s \<and> id_table s' = id_table s"
  using assms
  by (auto simp: MakeConcatenateLayer_def same_tables_def
      split: expr.splits prod.splits if_splits list.splits sum.splits sl_exception.splits)

lemma MakeSplitLayer_frame:
  assumes "MakeSplitLayer api sl call outs s = Inr (err, outs', s')"
  shows "same_tables s s' n \<and> operand_table s' = operand_table s \<and> id_table s' = id_table s"
  using assms
  by (auto simp: MakeSplitLayer_def same_tables_def
      split: expr.splits prod.splits if_splits list.splits sum.splits sl_exception.splits option.splits)

lemma HandleCall_frame:
  assumes "HandleCall api sl call s = Inr (r, s')"
  shows "same_tables s s' n \<and> operand_table s' = operand_table s \<and> id_table s' = id_table s"
  using assms MakeConcatenateLayer_frame [of api sl call "(None, 0)" s]
    MakeSplitLayer_frame [of api sl call "\<lparr>tensors = [], operationId = 0\<rparr>" s]
  by (auto simp: HandleCall_def split: if_splits sum.splits prod.splits)

lemma CallNode_frame:
  assumes "CN_VisitExpr_CallNode api sl e s = Inr s'"
  shows "same_tables s s' (node e)"
proof -
  from assms obtain r s1 where h: "HandleCall api sl e s = Inr (r, s1)"
    and s': "s' = s1\<lparr>operand_table := (operand_table s1)(node e := tensors r),
                  id_table := (id_table s1)
                    (node e := id_table s1 (node e) @
                       map (\<lambda>i. (operationId r, i)) [0..<length (tensors r)])\<rparr>"
    by (auto simp: CN_VisitExpr_CallNode_def split: sum.splits prod.splits)
  show ?thesis using HandleCall_frame [OF h, of "node e"] by (simp add: s' same_tables_def)
qed

lemma tuple_fields_frame:
  assumes "tuple_fields n flds s = Inr s'"
  shows "same_tables s s' n"
  using assms
proof (induction flds arbitrary: s)
  case Nil
  then show ?case by (simp add: same_tables_def)
next
  case (Cons arg rest)
  then show ?case
    by (fastforce simp: same_tables_def split: if_splits list.splits)
qed

lemma TupleNode_frame:
  assumes "CN_VisitExpr_TupleNode e s = Inr s'"
  shows "same_tables s s' (node e)"
  using assms tuple_fields_frame
  by (cases e) (auto simp: CN_VisitExpr_TupleNode_def same_tables_def)

lemma TupleGetItemNode_frame:
  assumes "CN_VisitExpr_TupleGetItemNode e s = Inr s'"
  shows "same_tables s s' (node e)"
  using assms
  by (cases e) (auto simp: CN_VisitExpr_TupleGetItemNode_def same_tables_def split: if_splits)

lemma cn_keeps_refl: "cn_keeps s s"
  by (simp add: cn_keeps_def)

lemma cn_keeps_trans: "cn_keeps a b \<Longrightarrow> cn_keeps b c \<Longrightarrow> cn_keeps a c"
  by (auto simp: cn_keeps_def)

lemma dispatch_keeps:
  assumes lt: "cn_visit_counter s n < 1"
    and st: "same_tables (s\<lparr>translated := translated s @ [n]\<rparr>) s1 n"
  shows "cn_keeps s (s1\<lparr>cn_visit_counter := (cn_visit_counter s1)(n := Suc (cn_visit_counter s1 n))\<rparr>)"
proof -
  have vc: "cn_visit_counter s1 = cn_visit_counter s" and tr: "translated s1 = translated s @ [n]"
    and tb: "\<And>x. x \<noteq> n \<Longrightarrow> operand_table s1 x = operand_table s x \<and> id_table s1 x = id_table s x"
    using st by (auto simp: same_tables_def)
  have "{m. 1 \<le> (if m = n then Suc (cn_visit_counter s n) else cn_visit_counter s m)}
        = insert n {m. 1 \<le> cn_visit_counter s m}" by auto
  moreover have "n \<notin> {m. 1 \<le> cn_visit_counter s m}" using lt by simp
  ultimately show ?thesis
    using lt tb by (auto simp: cn_keeps_def cn_inv_def vc tr)
qed

lemma MixedModeVisitor_VisitLeaf_keeps:
  assumes "MixedModeVisitor_VisitLeaf api sl e s = Inr s'"
  shows "cn_keeps s s' \<and> 1 \<le> cn_visit_counter s' (node e)"
proof (cases "cn_visit_counter s (node e) < 1")
  case True
  let ?s0 = "s\<lparr>translated := translated s @ [node e]\<rparr>"
  from assms True obtain s1 where
    d: "(case e of
           Call _ _ _ _ \<Rightarrow> CN_VisitExpr_CallNode api sl e ?s0
         | Tuple _ _ _ \<Rightarrow> CN_VisitExpr_TupleNode e ?s0
         | TupleGetItem _ _ _ _ \<Rightarrow> CN_VisitExpr_TupleGetItemNode e ?s0
         | _ \<Rightarrow> Inr ?s0) = Inr s1"
    and s': "s' = s1\<lparr>cn_visit_counter :=
                   (cn_visit_counter s1)(node e := Suc (cn_visit_counter s1 (node e)))\<rparr>"
    by (auto simp: MixedModeVisitor_VisitLeaf_def split: sum.splits)
  have "same_tables ?s0 s1 (node e)"
    using d CallNode_frame [of api sl e ?s0 s1] TupleNode_frame [of e ?s0 s1]
      TupleGetItemNode_frame [of e ?s0 s1]
    by (cases e) (auto simp: same_tables_def)
  then show ?thesis using dispatch_keeps [OF True] by (simp add: s')
next
  case False
  then have "s' = s\<lparr>cn_visit_counter :=
                   (cn_visit_counter s)(node e := Suc (cn_visit_counter s (node e)))\<rparr>"
    using assms by (simp add: MixedModeVisitor_VisitLeaf_def)
  moreover have "{m. 1 \<le> (if m = node e then Suc (cn_visit_counter s (node e)) else cn_visit_counter s m)}
        = {m. 1 \<le> cn_visit_counter s m}" using False by auto
  ultimately show ?thesis by (auto simp: cn_keeps_def cn_inv_def)
qed

lemma VisitLeaf_keeps:
  assumes "VisitLeaf api sl e s = Inr s'"
  shows "cn_keeps s s' \<and> ((\<exists>n. e = FunctionNode n) \<and> s' = s \<or> 1 \<le> cn_visit_counter s' (node e))"
  using assms MixedModeVisitor_VisitLeaf_keeps [of api sl e s s']
  by (cases e) (auto simp: VisitLeaf_def cn_keeps_refl)

lemma CN_VisitExpr_keeps:
  "CN_VisitExpr api sl e s = Inr s' \<Longrightarrow>
     cn_keeps s s' \<and> ((\<exists>n. e = FunctionNode n) \<and> s' = s \<or> 1 \<le> cn_visit_counter s' (node e))"
proof (induction e arbitrary: s s')
  case (Var n ty)
  then show ?case
    using VisitLeaf_keeps [of api sl "Var n ty" s s']
    by (auto simp: CN_VisitExpr.simps cn_keeps_refl split: if_splits)
next
  case (Op n nm)
  then show ?case
    using VisitLeaf_keeps [of api sl "Op n nm" s s']
    by (auto simp: CN_VisitExpr.simps cn_keeps_refl split: if_splits)
next
  case (FunctionNode n)
  then show ?case
    using VisitLeaf_keeps [of api sl "FunctionNode n" s s']
    by (auto simp: CN_VisitExpr.simps cn_keeps_refl split: if_splits)
next
  case (Call n ty op args)
  show ?case
  proof (cases "cn_visit_counter s n < 1")
    case True
    from Call.prems True obtain s1 where
      f: "for_each (CN_VisitExpr api sl) (op # args) s = Inr s1"
      and l: "VisitLeaf api sl (Call n ty op args) s1 = Inr s'"
      by (auto simp: CN_VisitExpr.simps split: sum.splits)
    have "cn_keeps s s1"
    proof (rule for_each_rel [where Q = cn_keeps, OF cn_keeps_refl cn_keeps_trans _ f])
      fix x u u' assume "x \<in> set (op # args)" "CN_VisitExpr api sl x u = Inr u'"
      then show "cn_keeps u u'" using Call.IH by auto
    qed
    then show ?thesis using VisitLeaf_keeps [OF l] cn_keeps_trans by auto
  next
    case False
    then show ?thesis using Call.prems by (simp add: CN_VisitExpr.simps cn_keeps_refl)
  qed
next
  case (Tuple n ty flds)
  show ?case
  proof (cases "cn_visit_counter s n < 1")
    case True
    from Tuple.prems True obtain s1 where
      f: "for_each (CN_VisitExpr api sl) flds s = Inr s1"
      and l: "VisitLeaf api sl (Tuple n ty flds) s1 = Inr s'"
      by (auto simp: CN_VisitExpr.simps split: sum.splits)
    have "cn_keeps s s1"
    proof (rule for_each_rel [where Q = cn_keeps, OF cn_keeps_refl cn_keeps_trans _ f])
      fix x u u' assume "x \<in> set flds" "CN_VisitExpr api sl x u = Inr u'"
      then show "cn_keeps u u'" using Tuple.IH by auto
    qed
    then show ?thesis using VisitLeaf_keeps [OF l] cn_keeps_trans by auto
  next
    case False
    then show ?thesis using Tuple.prems by (simp add: CN_VisitExpr.simps cn_keeps_refl)
  qed
next
  case (TupleGetItem n ty tuple index)
  show ?case
  proof (cases "cn_visit_counter s n < 1")
    case True
    from TupleGetItem.prems True obtain s1 where
      f: "CN_VisitExpr api sl tuple s = Inr s1"
      and l: "VisitLeaf api sl (TupleGetItem n ty tuple index) s1 = Inr s'"
      by (auto simp: CN_VisitExpr.simps split: sum.splits)
    have "cn_keeps s s1" using TupleGetItem.IH [OF f] by simp
    then show ?thesis using VisitLeaf_keeps [OF l] cn_keeps_trans by auto
  next
    case False
    then show ?thesis using TupleGetItem.prems by (simp add: CN_VisitExpr.simps cn_keeps_refl)
  qed
qed

lemma count_list_distinct:
  "distinct xs \<Longrightarrow> x \<in> set xs \<Longrightarrow> count_list xs x = 1"
  by (induction xs) auto

text \<open>
  C2: in a visitor whose memo holds exactly the nodes translated so far, each once, the
  traversal of an expression \<open>e\<close> (not a nested function) leaves every node translated
  exactly once, \<open>e\<close> among them; a node that the memo already holds keeps its operand
  and identifier entries, and visiting it is no change at all, so no operation is
  added for it again. Whatever is traversed afterwards (a second consumer of \<open>e\<close>),
  the entries of \<open>e\<close> stay the same: both consumers read the same handle.
\<close>

theorem each_node_translated_once:
  assumes "distinct (translated s)"
    and "set (translated s) = {n. 1 \<le> cn_visit_counter s n}"
    and "CN_VisitExpr api sl e s = Inr s'"
    and "\<forall>n. e \<noteq> FunctionNode n"
  shows "distinct (translated s') \<and> set (translated s') = {n. 1 \<le> cn_visit_counter s' n}
     \<and> count_list (translated s') (node e) = 1
     \<and> (1 \<le> cn_visit_counter s (node e) \<longrightarrow> s' = s)
     \<and> (\<forall>x. 1 \<le> cn_visit_counter s x \<longrightarrow>
            operand_table s' x = operand_table s x \<and> id_table s' x = id_table s x)
     \<and> CN_VisitExpr api sl e s' = Inr s'
     \<and> (\<forall>c s''. CN_VisitExpr api sl c s' = Inr s'' \<longrightarrow>
            operand_table s'' (node e) = operand_table s' (node e)
            \<and> id_table s'' (node e) = id_table s' (node e)
            \<and> count_list (translated s'') (node e) = 1)"
proof -
  note k = CN_VisitExpr_keeps [OF assms(3)]
  have inv: "cn_inv s" using assms(1,2) by (simp add: cn_inv_def)
  then have inv': "cn_inv s'" using k by (simp add: cn_keeps_def)
  have vis: "1 \<le> cn_visit_counter s' (node e)" using k assms(4) by auto
  then have mem: "node e \<in> set (translated s')" using inv' by (simp add: cn_inv_def)
  have 1: "count_list (translated s') (node e) = 1"
    using inv' mem by (intro count_list_distinct) (simp_all add: cn_inv_def)
  have 2: "1 \<le> cn_visit_counter s (node e) \<longrightarrow> s' = s"
  proof
    assume "1 \<le> cn_visit_counter s (node e)"
    then have "CN_VisitExpr api sl e s = Inr s" by (subst CN_VisitExpr.simps) simp
    then show "s' = s" using assms(3) by simp
  qed
  have 3: "\<forall>x. 1 \<le> cn_visit_counter s x \<longrightarrow>
            operand_table s' x = operand_table s x \<and> id_table s' x = id_table s x"
    using k by (simp add: cn_keeps_def)
  have 4: "CN_VisitExpr api sl e s' = Inr s'" using vis by (subst CN_VisitExpr.simps) simp
  have 5: "operand_table s'' (node e) = operand_table s' (node e)
            \<and> id_table s'' (node e) = id_table s' (node e)
            \<and> count_list (translated s'') (node e) = 1"
    if c: "CN_VisitExpr api sl c s' = Inr s''" for c s''
  proof -
    note k' = CN_VisitExpr_keeps [OF c]
    have i2: "cn_inv s''" using k' inv' by (simp add: cn_keeps_def)
    have v2: "1 \<le> cn_visit_counter s'' (node e)" using k' vis by (simp add: cn_keeps_def)
    then have "node e \<in> set (translated s'')" using i2 by (simp add: cn_inv_def)
    then have "count_list (translated s'') (node e) = 1"
      using i2 by (intro count_list_distinct) (simp_all add: cn_inv_def)
    then show ?thesis using k' vis by (simp add: cn_keeps_def)
  qed
  have 0: "distinct (translated s') \<and> set (translated s') = {n. 1 \<le> cn_visit_counter s' n}"
    using inv' by (simp add: cn_inv_def)
  show ?thesis using 0 1 2 3 4 5 by blast
qed

theorem each_node_translated_once_witness:
  "\<exists>s1 s2 s3.
     CN_VisitExpr ref_api ref_sl shared_node two_inputs = Inr s1
     \<and> operand_table s1 3 = [Some (Operand 2 0)]
     \<and> CN_VisitExpr ref_api ref_sl first_consumer s1 = Inr s2
     \<and> CN_VisitExpr ref_api ref_sl second_consumer s2 = Inr s3
     \<and> operand_table s2 3 = [Some (Operand 2 0)]
     \<and> operand_table s3 3 = [Some (Operand 2 0)]
     \<and> count_list (translated s3) 3 = 1
     \<and> network s3 =
         [InputOp ref_info, InputOp ref_info,
          ConcatenationOp [Some (Operand 0 0), Some (Operand 1 0)]
            \<lparr>m_Axis = 0, m_OutputQuantizationInfo = QuantizationInfo_default\<rparr>,
          ConcatenationOp [Some (Operand 2 0), Some (Operand 0 0)]
            \<lparr>m_Axis = 0, m_OutputQuantizationInfo = QuantizationInfo_default\<rparr>,
          ConcatenationOp [Some (Operand 2 0), Some (Operand 1 0)]
            \<lparr>m_Axis = 0, m_OutputQuantizationInfo = QuantizationInfo_default\<rparr>]"
proof -
  have "case CN_VisitExpr ref_api ref_sl shared_node two_inputs of
          Inl _ \<Rightarrow> False
        | Inr s1 \<Rightarrow>
            operand_table s1 3 = [Some (Operand 2 0)]
            \<and> (case CN_VisitExpr ref_api ref_sl first_consumer s1 of
                  Inl _ \<Rightarrow> False
                | Inr s2 \<Rightarrow>
                    (case CN_VisitExpr ref_api ref_sl second_consumer s2 of
                       Inl _ \<Rightarrow> False
                     | Inr s3 \<Rightarrow>
                         network s3 =
                           [InputOp ref_info, InputOp ref_info,
                            ConcatenationOp [Some (Operand 0 0), Some (Operand 1 0)]
                              \<lparr>m_Axis = 0, m_OutputQuantizationInfo = QuantizationInfo_default\<rparr>,
                            ConcatenationOp [Some (Operand 2 0), Some (Operand 0 0)]
                              \<lparr>m_Axis = 0, m_OutputQuantizationInfo = QuantizationInfo_default\<rparr>,
                            ConcatenationOp [Some (Operand 2 0), Some (Operand 1 0)]
                              \<lparr>m_Axis = 0, m_OutputQuantizationInfo = QuantizationInfo_default\<rparr>]))"
    by code_simp
  then obtain s1 s2 s3 where
    1: "CN_VisitExpr ref_api ref_sl shared_node two_inputs = Inr s1"
    and o: "operand_table s1 3 = [Some (Operand 2 0)]"
    and 2: "CN_VisitExpr ref_api ref_sl first_consumer s1 = Inr s2"
    and 3: "CN_VisitExpr ref_api ref_sl second_consumer s2 = Inr s3"
    and n: "network s3 =
         [InputOp ref_info, InputOp ref_info,
          ConcatenationOp [Some (Operand 0 0), Some (Operand 1 0)]
            \<lparr>m_Axis = 0, m_OutputQuantizationInfo = QuantizationInfo_default\<rparr>,
          ConcatenationOp [Some (Operand 2 0), Some (Operand 0 0)]
            \<lparr>m_Axis = 0, m_OutputQuantizationInfo = QuantizationInfo_default\<rparr>,
          ConcatenationOp [Some (Operand 2 0), Some (Operand 1 0)]
            \<lparr>m_Axis = 0, m_OutputQuantizationInfo = QuantizationInfo_default\<rparr>]"
    by (auto split: sum.splits)
  have d: "distinct (translated two_inputs)"
    and v: "set (translated two_inputs) = {n. 1 \<le> cn_visit_counter two_inputs n}"
    and f: "\<forall>n. shared_node \<noteq> FunctionNode n"
    and nd: "node shared_node = 3"
    by (simp_all add: two_inputs_def shared_node_def)
  note t1 = each_node_translated_once [OF d v 1 f]
  have a: "operand_table s2 3 = [Some (Operand 2 0)]"
    using t1 2 o nd by metis
  have d1: "distinct (translated s1)"
    and v1: "set (translated s1) = {n. 1 \<le> cn_visit_counter s1 n}"
    using t1 by blast+
  have "node shared_node \<in> set (translated s1)"
    using t1 by (metis count_list_0_iff zero_neq_one)
  then have vis: "1 \<le> cn_visit_counter s1 3" using v1 nd by simp
  have vis2: "1 \<le> cn_visit_counter s2 3"
    using CN_VisitExpr_keeps [OF 2] vis by (simp add: cn_keeps_def)
  have d2: "distinct (translated s2)"
    and v2: "set (translated s2) = {n. 1 \<le> cn_visit_counter s2 n}"
    using CN_VisitExpr_keeps [OF 2] d1 v1 by (simp_all add: cn_keeps_def cn_inv_def)
  have s2: "CN_VisitExpr ref_api ref_sl shared_node s2 = Inr s2"
    using vis2 nd by (subst CN_VisitExpr.simps) simp
  note t3 = each_node_translated_once [OF d2 v2 s2 f]
  have b: "operand_table s3 3 = [Some (Operand 2 0)] \<and> count_list (translated s3) 3 = 1"
    using t3 3 a nd by metis
  show ?thesis using 1 o 2 3 a b n by blast
qed

section \<open>The order of inputs and outputs\<close>










text \<open>The identifiers recorded for a node are those of its operands, through the whole
  traversal of a new visitor; the entries of the parameters are those of their inputs.\<close>

lemma ids_ok_Nil: "ids_ok [] []"
  by (simp add: ids_ok_def)




























section \<open>Gated expansion in metadata inference\<close>

text \<open>
  The gate of \<^verbatim>\<open>VisitInferred\<close> and the memo of the dispatcher, followed through a whole
  traversal: first that a visit keeps resolved entries and a resolved log, then that it
  expands only nodes that were not in the memo, then the two cases of a projection.
\<close>

lemma VisitInferred_gate:
  "VisitInferred api e s =
     (if entry_resolved (tensor_table s (node e)) then VisitExpr api e s else Inr s)"
  by (simp add: VisitInferred.simps entry_resolved_def split: option.splits)

lemma VisitExpr_unfold:
  "VisitExpr api e s =
     (if visit_counter s (node e) \<noteq> 0
      then Inr (s\<lparr>visit_counter := (visit_counter s)(node e := Suc (visit_counter s (node e)))\<rparr>)
      else
        (case VisitExpr_dispatch api e
                (s\<lparr>expanded := expanded s @ [(node e, tensor_table s (node e))]\<rparr>) of
           Inl err \<Rightarrow> Inl err
         | Inr s' \<Rightarrow>
             Inr (if visit_counter s' (node e) = 0
                  then s'\<lparr>visit_counter := (visit_counter s')(node e := 1)\<rparr>
                  else s')))"
  by (subst VisitExpr.simps) (simp add: VisitExpr_dispatch_def split: expr.splits)

lemma gate_kept_refl: "gate_kept s s"
  by (simp add: gate_kept_def)

lemma gate_kept_trans: "gate_kept a b \<Longrightarrow> gate_kept b c \<Longrightarrow> gate_kept a c"
  by (auto simp: gate_kept_def)

lemma for_each_rel_from:
  assumes "\<And>u. Q u u"
    and "\<And>a b c. Q a b \<Longrightarrow> Q b c \<Longrightarrow> Q a c"
    and "\<And>x u u'. x \<in> set xs \<Longrightarrow> Q s0 u \<Longrightarrow> f x u = Inr u' \<Longrightarrow> Q u u'"
    and "Q s0 s"
    and "for_each f xs s = Inr s'"
  shows "Q s s'"
  using assms(3,4,5)
proof (induction xs arbitrary: s)
  case Nil
  then show ?case using assms(1) by simp
next
  case (Cons x xs)
  from Cons.prems(3) obtain s1 where 1: "f x s = Inr s1" and 2: "for_each f xs s1 = Inr s'"
    by (auto split: sum.splits)
  have a: "Q s s1" using Cons.prems(1) [of x s s1] Cons.prems(2) 1 by simp
  then have b: "Q s0 s1" using Cons.prems(2) assms(2) by blast
  have "Q s1 s'"
  proof (rule Cons.IH [OF _ b 2])
    fix y u u' assume "y \<in> set xs" "Q s0 u" "f y u = Inr u'"
    then show "Q u u'" using Cons.prems(1) [of y u u'] by simp
  qed
  then show ?case using a assms(2) by blast
qed

lemma entry_resolved_update:
  assumes "entry_resolved (Some entry)" and "d \<noteq> TensorInfo_default"
  shows "entry_resolved (Some (entry[i := d]))"
proof -
  have "set (entry[i := d]) \<subseteq> insert d (set entry)" by (rule set_update_subset_insert)
  then show ?thesis using assms by (auto simp: entry_resolved_def)
qed

lemma InferCall_writes:
  assumes "api_resolves api" and "InferCall api e s = Inr s'"
  shows "s' = s \<or> (\<exists>a infos. s' = s\<lparr>tensor_table := (tensor_table s)(a \<mapsto> infos)\<rparr>
                        \<and> TensorInfo_default \<notin> set infos)"
proof (cases e)
  case (Call n ty op args)
  show ?thesis
  proof (cases "IsEthosnOp e ''qnn.concatenate''")
    case True
    obtain err prm where c: "Concatenate api e ConcatenateParams_default = (err, prm)"
      by (cases "Concatenate api e ConcatenateParams_default") auto
    from assms(2) Call True c obtain a0 rest where "args = a0 # rest" and "err = []"
      and "s' = s\<lparr>tensor_table := (tensor_table s)(node a0 \<mapsto> input_infos prm)\<rparr>"
      by (auto simp: InferCall_def split: list.splits if_splits)
    moreover have "TensorInfo_default \<notin> set (input_infos prm)"
      using assms(1) c \<open>err = []\<close> unfolding api_resolves_def by blast
    ultimately show ?thesis by blast
  next
    case False
    from assms(2) Call False have sp: "IsEthosnOp e ''split''"
      by (auto simp: InferCall_def split: if_splits)
    from assms(2) Call False sp obtain ti where g: "GetTensorInfo (tensor_table s) e = Inr ti"
      by (auto simp: InferCall_def split: sum.splits)
    obtain err prm where c: "Split api e (SplitParams_default\<lparr>input_info := ti\<rparr>) = (err, prm)"
      by (cases "Split api e (SplitParams_default\<lparr>input_info := ti\<rparr>)") auto
    from assms(2) Call False sp g c obtain a0 rest where "args = a0 # rest" and "err = []"
      and "s' = s\<lparr>tensor_table := (tensor_table s)(node a0 \<mapsto> [input_info prm])\<rparr>"
      by (auto simp: InferCall_def split: list.splits if_splits)
    moreover have "input_info prm \<noteq> TensorInfo_default"
      using assms(1) c \<open>err = []\<close> unfolding api_resolves_def by blast
    then have "TensorInfo_default \<notin> set [input_info prm]" by simp
    ultimately show ?thesis by blast
  qed
qed (use assms in \<open>auto simp: InferCall_def\<close>)

lemma InferCall_kept:
  assumes "api_resolves api" and "InferCall api e s = Inr s'"
  shows "gate_kept s s'"
  using InferCall_writes [OF assms]
  by (auto simp: gate_kept_def log_resolved_def entry_resolved_def)

lemma distribute_fields_kept:
  assumes "distribute_fields n flds i tt = Inr tt'" and "entry_resolved (tt n)"
  shows "(\<forall>m. entry_resolved (tt m) \<longrightarrow> entry_resolved (tt' m))
       \<and> (\<forall>f \<in> set flds. entry_resolved (tt' (node f)))"
  using assms
proof (induction flds arbitrary: i tt)
  case Nil
  then show ?case by simp
next
  case (Cons f fs)
  from Cons.prems obtain infos where e: "tt n = Some infos" and lt: "i < length infos"
    and step: "distribute_fields n fs (Suc i) (tt(node f \<mapsto> [infos ! i])) = Inr tt'"
    by (auto split: option.splits if_splits)
  let ?tt1 = "tt(node f \<mapsto> [infos ! i])"
  have "infos ! i \<in> set infos" using lt by simp
  moreover have "TensorInfo_default \<notin> set infos"
    using Cons.prems(2) e by (simp add: entry_resolved_def)
  ultimately have r: "infos ! i \<noteq> TensorInfo_default" by metis
  have n1: "entry_resolved (?tt1 n)"
    using Cons.prems(2) r by (auto simp: entry_resolved_def)
  have m1: "\<forall>m. entry_resolved (tt m) \<longrightarrow> entry_resolved (?tt1 m)"
    using r by (auto simp: entry_resolved_def)
  have f1: "entry_resolved (?tt1 (node f))" using r by (simp add: entry_resolved_def)
  note ih = Cons.IH [OF step n1]
  show ?case using ih m1 f1 by auto
qed

lemma write_projection_kept:
  assumes "write_projection e tt = Inr tt'" and "entry_resolved (tt (node e))"
  shows "\<forall>m. entry_resolved (tt m) \<longrightarrow> entry_resolved (tt' m)"
proof (cases e)
  case (TupleGetItem n ty tuple index)
  from assms(2) TupleGetItem obtain own where own: "tt n = Some own"
    and ownr: "TensorInfo_default \<notin> set own"
    by (auto simp: entry_resolved_def split: option.splits)
  show ?thesis
  proof (cases "tt (node tuple)")
    case None
    then have ne: "node tuple \<noteq> n" using own by auto
    from assms(1) TupleGetItem None own ne obtain k d ds where "own = d # ds"
      and "tt' = tt(node tuple \<mapsto> (replicate k TensorInfo_default)[nat index := d])"
      by (auto simp: write_projection_def split: option.splits rtype.splits list.splits if_splits)
    then show ?thesis using None by (auto simp: entry_resolved_def)
  next
    case (Some entry)
    from assms(1) TupleGetItem Some own obtain d ds where o: "own = d # ds"
      and tt': "tt' = tt(node tuple \<mapsto> entry[nat index := d])"
      by (auto simp: write_projection_def split: option.splits rtype.splits list.splits if_splits)
    have d: "d \<noteq> TensorInfo_default" using ownr o by auto
    show ?thesis
    proof (intro allI impI)
      fix m assume r: "entry_resolved (tt m)"
      show "entry_resolved (tt' m)"
      proof (cases "m = node tuple")
        case True
        then have "entry_resolved (Some entry)" using r Some by simp
        then show ?thesis using entry_resolved_update [OF _ d] tt' True by simp
      next
        case False
        then show ?thesis using r tt' by simp
      qed
    qed
  qed
qed (use assms in \<open>auto simp: write_projection_def\<close>)

lemma VisitExpr_kept_from_dispatch:
  assumes d: "\<And>u u'. entry_resolved (tensor_table u (node e)) \<Longrightarrow>
                 VisitExpr_dispatch api e u = Inr u' \<Longrightarrow> gate_kept u u'"
    and r: "entry_resolved (tensor_table s (node e))"
    and v: "VisitExpr api e s = Inr s'"
  shows "gate_kept s s'"
proof (cases "visit_counter s (node e) \<noteq> 0")
  case True
  then have "s' = s\<lparr>visit_counter := (visit_counter s)(node e := Suc (visit_counter s (node e)))\<rparr>"
    using v by (simp add: VisitExpr_unfold)
  then show ?thesis by (simp add: gate_kept_def log_resolved_def)
next
  case False
  let ?s0 = "s\<lparr>expanded := expanded s @ [(node e, tensor_table s (node e))]\<rparr>"
  from v False obtain s1 where d1: "VisitExpr_dispatch api e ?s0 = Inr s1"
    and s': "s' = (if visit_counter s1 (node e) = 0
                   then s1\<lparr>visit_counter := (visit_counter s1)(node e := 1)\<rparr> else s1)"
    by (auto simp: VisitExpr_unfold split: sum.splits)
  have a: "gate_kept s ?s0" using r by (simp add: gate_kept_def log_resolved_def)
  have b: "gate_kept ?s0 s1" using d [OF _ d1] r by simp
  have c: "gate_kept s1 s'" using s' by (simp add: gate_kept_def log_resolved_def)
  show ?thesis using a b c gate_kept_trans by blast
qed

lemma visits_keep_gate:
  assumes api: "api_resolves api"
  shows "(VisitInferred api e s = Inr s' \<longrightarrow> gate_kept s s')
       \<and> (entry_resolved (tensor_table s (node e)) \<and> VisitExpr api e s = Inr s' \<longrightarrow> gate_kept s s')"
proof (induction e arbitrary: s s')
  case (Var n ty)
  have "gate_kept s s'" if "entry_resolved (tensor_table s (node (Var n ty)))"
    and "VisitExpr api (Var n ty) s = Inr s'" for s s'
    using that by (intro VisitExpr_kept_from_dispatch [of "Var n ty" api s s'])
      (auto simp: VisitExpr_dispatch_def gate_kept_refl)
  then show ?case by (simp add: VisitInferred_gate gate_kept_refl)
next
  case (Op n nm)
  have "gate_kept s s'" if "entry_resolved (tensor_table s (node (Op n nm)))"
    and "VisitExpr api (Op n nm) s = Inr s'" for s s'
    using that by (intro VisitExpr_kept_from_dispatch [of "Op n nm" api s s'])
      (auto simp: VisitExpr_dispatch_def gate_kept_refl)
  then show ?case by (simp add: VisitInferred_gate gate_kept_refl)
next
  case (FunctionNode n)
  have "gate_kept s s'" if "entry_resolved (tensor_table s (node (FunctionNode n)))"
    and "VisitExpr api (FunctionNode n) s = Inr s'" for s s'
    using that by (intro VisitExpr_kept_from_dispatch [of "FunctionNode n" api s s'])
      (auto simp: VisitExpr_dispatch_def gate_kept_refl)
  then show ?case by (simp add: VisitInferred_gate gate_kept_refl)
next
  case (Call n ty op args)
  have d: "gate_kept u u'" if "VisitExpr_dispatch api (Call n ty op args) u = Inr u'" for u u'
  proof -
    from that obtain u1 where i: "InferCall api (Call n ty op args) u = Inr u1"
      and f: "for_each (VisitInferred api) args u1 = Inr u'"
      by (auto simp: VisitExpr_dispatch_def split: sum.splits)
    have "gate_kept u1 u'"
    proof (rule for_each_rel [where Q = gate_kept, OF gate_kept_refl gate_kept_trans _ f])
      fix x w w' assume "x \<in> set args" "VisitInferred api x w = Inr w'"
      then show "gate_kept w w'" using Call.IH(2) by blast
    qed
    then show ?thesis using InferCall_kept [OF api i] gate_kept_trans by blast
  qed
  have "gate_kept s s'" if "entry_resolved (tensor_table s (node (Call n ty op args)))"
    and "VisitExpr api (Call n ty op args) s = Inr s'" for s s'
    using that d by (intro VisitExpr_kept_from_dispatch [of "Call n ty op args" api s s']) auto
  then show ?case by (simp add: VisitInferred_gate gate_kept_refl)
next
  case (Tuple n ty flds)
  have d: "gate_kept u u'" if r: "entry_resolved (tensor_table u n)"
    and v: "VisitExpr_dispatch api (Tuple n ty flds) u = Inr u'" for u u'
  proof -
    from v obtain tt where df: "distribute_fields n flds 0 (tensor_table u) = Inr tt"
      and f: "for_each (VisitExpr api) flds (u\<lparr>tensor_table := tt\<rparr>) = Inr u'"
      by (auto simp: VisitExpr_dispatch_def split: sum.splits option.splits)
    let ?u1 = "u\<lparr>tensor_table := tt\<rparr>"
    note k = distribute_fields_kept [OF df r]
    have a: "gate_kept u ?u1" using k by (simp add: gate_kept_def log_resolved_def)
    have "gate_kept ?u1 u'"
    proof (rule for_each_rel_from [where Q = gate_kept and ?s0.0 = ?u1,
          OF gate_kept_refl gate_kept_trans _ gate_kept_refl f])
      fix x w w' assume x: "x \<in> set flds" and g: "gate_kept ?u1 w"
        and vx: "VisitExpr api x w = Inr w'"
      have "entry_resolved (tensor_table ?u1 (node x))" using k x by simp
      then have "entry_resolved (tensor_table w (node x))" using g by (simp add: gate_kept_def)
      then show "gate_kept w w'" using Tuple.IH x vx by blast
    qed
    then show ?thesis using a gate_kept_trans by blast
  qed
  have "gate_kept s s'" if "entry_resolved (tensor_table s (node (Tuple n ty flds)))"
    and "VisitExpr api (Tuple n ty flds) s = Inr s'" for s s'
    using that d by (intro VisitExpr_kept_from_dispatch [of "Tuple n ty flds" api s s']) auto
  then show ?case by (simp add: VisitInferred_gate gate_kept_refl)
next
  case (TupleGetItem n ty tuple index)
  have d: "gate_kept u u'" if r: "entry_resolved (tensor_table u n)"
    and v: "VisitExpr_dispatch api (TupleGetItem n ty tuple index) u = Inr u'" for u u'
  proof -
    from v obtain tt where w: "write_projection (TupleGetItem n ty tuple index) (tensor_table u) = Inr tt"
      and f: "VisitInferred api tuple (u\<lparr>tensor_table := tt\<rparr>) = Inr u'"
      by (auto simp: VisitExpr_dispatch_def split: sum.splits)
    have "gate_kept u (u\<lparr>tensor_table := tt\<rparr>)"
      using write_projection_kept [OF w] r by (simp add: gate_kept_def log_resolved_def)
    moreover have "gate_kept (u\<lparr>tensor_table := tt\<rparr>) u'" using TupleGetItem.IH f by blast
    ultimately show ?thesis using gate_kept_trans by blast
  qed
  have "gate_kept s s'" if "entry_resolved (tensor_table s (node (TupleGetItem n ty tuple index)))"
    and "VisitExpr api (TupleGetItem n ty tuple index) s = Inr s'" for s s'
    using that d
    by (intro VisitExpr_kept_from_dispatch [of "TupleGetItem n ty tuple index" api s s']) auto
  then show ?case by (simp add: VisitInferred_gate gate_kept_refl)
qed

lemma nodes_of_below: "nodes_of e = insert (node e) (below e)"
  by (cases e) auto

lemma inf_steps_refl: "inf_steps A s s"
  by (simp add: inf_steps_def)

lemma inf_steps_trans:
  assumes "inf_steps A a b" and "inf_steps A b c"
  shows "inf_steps A a c"
proof -
  from assms(1) obtain n1 where 1: "expanded b = expanded a @ n1"
    and p1: "\<forall>p \<in> set n1. fst p \<in> A \<and> visit_counter a (fst p) = 0"
    and m1: "\<forall>n. visit_counter a n \<noteq> 0 \<longrightarrow> visit_counter b n \<noteq> 0"
    by (auto simp: inf_steps_def)
  from assms(2) obtain n2 where 2: "expanded c = expanded b @ n2"
    and p2: "\<forall>p \<in> set n2. fst p \<in> A \<and> visit_counter b (fst p) = 0"
    and m2: "\<forall>n. visit_counter b n \<noteq> 0 \<longrightarrow> visit_counter c n \<noteq> 0"
    by (auto simp: inf_steps_def)
  have "expanded c = expanded a @ (n1 @ n2)" using 1 2 by simp
  moreover have "\<forall>p \<in> set (n1 @ n2). fst p \<in> A \<and> visit_counter a (fst p) = 0"
  proof
    fix p assume "p \<in> set (n1 @ n2)"
    then consider "p \<in> set n1" | "p \<in> set n2" by auto
    then show "fst p \<in> A \<and> visit_counter a (fst p) = 0"
    proof cases
      case 1
      then show ?thesis using p1 by blast
    next
      case 2
      then have "fst p \<in> A" and "visit_counter b (fst p) = 0" using p2 by blast+
      then show ?thesis using m1 by (cases "visit_counter a (fst p) = 0") auto
    qed
  qed
  moreover have "\<forall>n. visit_counter a n \<noteq> 0 \<longrightarrow> visit_counter c n \<noteq> 0" using m1 m2 by auto
  ultimately show ?thesis unfolding inf_steps_def by blast
qed

lemma inf_steps_mono: "inf_steps A s s' \<Longrightarrow> A \<subseteq> B \<Longrightarrow> inf_steps B s s'"
  by (fastforce simp: inf_steps_def)

lemma inf_steps_count:
  assumes "inf_steps A s s'" and "visit_counter s n \<noteq> 0 \<or> n \<notin> A"
  shows "count_list (map fst (expanded s')) n = count_list (map fst (expanded s)) n"
proof -
  from assms(1) obtain new where 1: "expanded s' = expanded s @ new"
    and p: "\<forall>p \<in> set new. fst p \<in> A \<and> visit_counter s (fst p) = 0"
    by (auto simp: inf_steps_def)
  have "n \<notin> set (map fst new)" using p assms(2) by auto
  then have "count_list (map fst new) n = 0" by (simp add: count_list_0_iff)
  then show ?thesis using 1 by simp
qed

lemma VisitExpr_steps_from_dispatch:
  assumes d: "\<And>u u'. VisitExpr_dispatch api e u = Inr u' \<Longrightarrow> inf_steps (below e) u u'"
    and v: "VisitExpr api e s = Inr s'"
  shows "inf_steps (nodes_of e) s s'"
proof (cases "visit_counter s (node e) \<noteq> 0")
  case True
  then have "s' = s\<lparr>visit_counter := (visit_counter s)(node e := Suc (visit_counter s (node e)))\<rparr>"
    using v by (simp add: VisitExpr_unfold)
  then show ?thesis by (simp add: inf_steps_def)
next
  case False
  let ?s0 = "s\<lparr>expanded := expanded s @ [(node e, tensor_table s (node e))]\<rparr>"
  from v False obtain s1 where d1: "VisitExpr_dispatch api e ?s0 = Inr s1"
    and s': "s' = (if visit_counter s1 (node e) = 0
                   then s1\<lparr>visit_counter := (visit_counter s1)(node e := 1)\<rparr> else s1)"
    by (auto simp: VisitExpr_unfold split: sum.splits)
  have a: "inf_steps (nodes_of e) s ?s0"
    using False by (simp add: inf_steps_def nodes_of_below)
  have b: "inf_steps (nodes_of e) ?s0 s1"
    using d [OF d1] by (rule inf_steps_mono) (auto simp: nodes_of_below)
  have c: "inf_steps (nodes_of e) s1 s'" using s' by (simp add: inf_steps_def)
  show ?thesis using a b c inf_steps_trans by blast
qed

lemma visits_are_steps:
  "(VisitInferred api e s = Inr s' \<longrightarrow> inf_steps (nodes_of e) s s')
   \<and> (VisitExpr api e s = Inr s' \<longrightarrow> inf_steps (nodes_of e) s s')
   \<and> (VisitExpr_dispatch api e s = Inr s' \<longrightarrow> inf_steps (below e) s s')"
proof (induction e arbitrary: s s')
  case (Var n ty)
  have d: "inf_steps (below (Var n ty)) u u'" if "VisitExpr_dispatch api (Var n ty) u = Inr u'" for u u'
    using that by (auto simp: VisitExpr_dispatch_def inf_steps_refl)
  then show ?case
    using VisitExpr_steps_from_dispatch [of api "Var n ty"]
    by (auto simp: VisitInferred_gate inf_steps_refl)
next
  case (Op n nm)
  have d: "inf_steps (below (Op n nm)) u u'" if "VisitExpr_dispatch api (Op n nm) u = Inr u'" for u u'
    using that by (auto simp: VisitExpr_dispatch_def inf_steps_refl)
  then show ?case
    using VisitExpr_steps_from_dispatch [of api "Op n nm"]
    by (auto simp: VisitInferred_gate inf_steps_refl)
next
  case (FunctionNode n)
  have d: "inf_steps (below (FunctionNode n)) u u'"
    if "VisitExpr_dispatch api (FunctionNode n) u = Inr u'" for u u'
    using that by (auto simp: VisitExpr_dispatch_def inf_steps_refl)
  then show ?case
    using VisitExpr_steps_from_dispatch [of api "FunctionNode n"]
    by (auto simp: VisitInferred_gate inf_steps_refl)
next
  case (Call n ty op args)
  let ?A = "below (Call n ty op args)"
  have d: "inf_steps ?A u u'" if "VisitExpr_dispatch api (Call n ty op args) u = Inr u'" for u u'
  proof -
    from that obtain u1 where i: "InferCall api (Call n ty op args) u = Inr u1"
      and f: "for_each (VisitInferred api) args u1 = Inr u'"
      by (auto simp: VisitExpr_dispatch_def split: sum.splits)
    have "expanded u1 = expanded u \<and> visit_counter u1 = visit_counter u"
      using i by (auto simp: InferCall_def split: if_splits prod.splits list.splits sum.splits)
    then have a: "inf_steps ?A u u1" by (simp add: inf_steps_def)
    have "inf_steps ?A u1 u'"
    proof (rule for_each_rel [where Q = "inf_steps ?A", OF inf_steps_refl inf_steps_trans _ f])
      fix x w w' assume x: "x \<in> set args" and "VisitInferred api x w = Inr w'"
      then have "inf_steps (nodes_of x) w w'" using Call.IH(2) by blast
      moreover have "nodes_of x \<subseteq> ?A" using x by auto
      ultimately show "inf_steps ?A w w'" by (rule inf_steps_mono)
    qed
    then show ?thesis using a inf_steps_trans by blast
  qed
  then show ?case
    using VisitExpr_steps_from_dispatch [of api "Call n ty op args"]
    by (auto simp: VisitInferred_gate inf_steps_refl)
next
  case (Tuple n ty flds)
  let ?A = "below (Tuple n ty flds)"
  have d: "inf_steps ?A u u'" if "VisitExpr_dispatch api (Tuple n ty flds) u = Inr u'" for u u'
  proof -
    from that obtain tt where
      f: "for_each (VisitExpr api) flds (u\<lparr>tensor_table := tt\<rparr>) = Inr u'"
      by (auto simp: VisitExpr_dispatch_def split: sum.splits option.splits)
    have a: "inf_steps ?A u (u\<lparr>tensor_table := tt\<rparr>)" by (simp add: inf_steps_def)
    have "inf_steps ?A (u\<lparr>tensor_table := tt\<rparr>) u'"
    proof (rule for_each_rel [where Q = "inf_steps ?A", OF inf_steps_refl inf_steps_trans _ f])
      fix x w w' assume x: "x \<in> set flds" and "VisitExpr api x w = Inr w'"
      then have "inf_steps (nodes_of x) w w'" using Tuple.IH by blast
      moreover have "nodes_of x \<subseteq> ?A" using x by auto
      ultimately show "inf_steps ?A w w'" by (rule inf_steps_mono)
    qed
    then show ?thesis using a inf_steps_trans by blast
  qed
  then show ?case
    using VisitExpr_steps_from_dispatch [of api "Tuple n ty flds"]
    by (auto simp: VisitInferred_gate inf_steps_refl)
next
  case (TupleGetItem n ty tuple index)
  let ?A = "below (TupleGetItem n ty tuple index)"
  have d: "inf_steps ?A u u'"
    if "VisitExpr_dispatch api (TupleGetItem n ty tuple index) u = Inr u'" for u u'
  proof -
    from that obtain tt where
      f: "VisitInferred api tuple (u\<lparr>tensor_table := tt\<rparr>) = Inr u'"
      by (auto simp: VisitExpr_dispatch_def split: sum.splits)
    have a: "inf_steps ?A u (u\<lparr>tensor_table := tt\<rparr>)" by (simp add: inf_steps_def)
    have "inf_steps ?A (u\<lparr>tensor_table := tt\<rparr>) u'" using TupleGetItem.IH f by simp
    then show ?thesis using a inf_steps_trans by blast
  qed
  then show ?case
    using VisitExpr_steps_from_dispatch [of api "TupleGetItem n ty tuple index"]
    by (auto simp: VisitInferred_gate inf_steps_refl)
qed

lemma projection_dispatch:
  assumes own: "tensor_table s g = Some [d]"
    and ct: "checked_type t = Some (TupleType tys)"
    and i0: "0 \<le> index" and i1: "nat index < length tys"
    and ne: "node t \<noteq> g"
    and len: "\<forall>entry. tensor_table s (node t) = Some entry \<longrightarrow> length entry = length tys"
    and vg: "visit_counter s g = 0"
  shows "VisitExpr api (TupleGetItem g ty t index) s =
     (case VisitInferred api t
             (s\<lparr>expanded := expanded s @ [(g, Some [d])],
                tensor_table := (tensor_table s)
                  (node t \<mapsto> (projected_entry (tensor_table s) t (length tys))[nat index := d])\<rparr>) of
        Inl err \<Rightarrow> Inl err
      | Inr s' \<Rightarrow>
          Inr (if visit_counter s' g = 0
               then s'\<lparr>visit_counter := (visit_counter s')(g := 1)\<rparr> else s'))"
proof -
  let ?s0 = "s\<lparr>expanded := expanded s @ [(g, Some [d])]\<rparr>"
  have w: "write_projection (TupleGetItem g ty t index) (tensor_table s) =
     Inr ((tensor_table s)(node t \<mapsto> (projected_entry (tensor_table s) t (length tys))[nat index := d]))"
    using write_projection_writes [of "tensor_table s" g d "[]" t tys index ty] assms by simp
  have "VisitExpr_dispatch api (TupleGetItem g ty t index) ?s0 =
     VisitInferred api t
       (?s0\<lparr>tensor_table := (tensor_table s)
            (node t \<mapsto> (projected_entry (tensor_table s) t (length tys))[nat index := d])\<rparr>)"
    by (simp add: VisitExpr_dispatch_def w)
  then show ?thesis using vg own by (simp add: VisitExpr_unfold cong: sum.case_cong if_cong)
qed

lemma projection_waits:
  assumes own: "tensor_table s g = Some [d]"
    and ct: "checked_type t = Some (TupleType tys)"
    and i0: "0 \<le> index" and i1: "nat index < length tys"
    and ne: "node t \<noteq> g"
    and len: "\<forall>entry. tensor_table s (node t) = Some entry \<longrightarrow> length entry = length tys"
    and vg: "visit_counter s g = 0"
    and un: "TensorInfo_default
               \<in> set ((projected_entry (tensor_table s) t (length tys))[nat index := d])"
  shows "VisitExpr api (TupleGetItem g ty t index) s =
     Inr (s\<lparr>expanded := expanded s @ [(g, Some [d])],
            tensor_table := (tensor_table s)
              (node t \<mapsto> (projected_entry (tensor_table s) t (length tys))[nat index := d]),
            visit_counter := (visit_counter s)(g := 1)\<rparr>)"
  using un vg
  by (simp add: projection_dispatch [OF own ct i0 i1 ne len vg] VisitInferred_gate
      entry_resolved_def)

lemma projection_completes:
  assumes own: "tensor_table s g = Some [d]"
    and ct: "checked_type t = Some (TupleType tys)"
    and i0: "0 \<le> index" and i1: "nat index < length tys"
    and ne: "node t \<noteq> g"
    and len: "\<forall>entry. tensor_table s (node t) = Some entry \<longrightarrow> length entry = length tys"
    and vg: "visit_counter s g = 0"
    and re: "TensorInfo_default
               \<notin> set ((projected_entry (tensor_table s) t (length tys))[nat index := d])"
    and vt: "visit_counter s (node t) = 0"
    and ac: "node t \<notin> below t"
    and v: "VisitExpr api (TupleGetItem g ty t index) s = Inr s'"
  shows "count_list (map fst (expanded s')) (node t) = count_list (map fst (expanded s)) (node t) + 1
     \<and> (node t, Some ((projected_entry (tensor_table s) t (length tys))[nat index := d]))
          \<in> set (expanded s')
     \<and> visit_counter s' (node t) \<noteq> 0"
proof -
  let ?e = "(projected_entry (tensor_table s) t (length tys))[nat index := d]"
  let ?s1 = "s\<lparr>expanded := expanded s @ [(g, Some [d])],
               tensor_table := (tensor_table s)(node t \<mapsto> ?e)\<rparr>"
  from v obtain s2 where v2: "VisitInferred api t ?s1 = Inr s2"
    and s': "s' = (if visit_counter s2 g = 0
                   then s2\<lparr>visit_counter := (visit_counter s2)(g := 1)\<rparr> else s2)"
    by (auto simp: projection_dispatch [OF own ct i0 i1 ne len vg] split: sum.splits)
  have vx: "VisitExpr api t ?s1 = Inr s2"
    using v2 re by (simp add: VisitInferred_gate entry_resolved_def)
  let ?s1' = "?s1\<lparr>expanded := expanded ?s1 @ [(node t, tensor_table ?s1 (node t))]\<rparr>"
  from vx vt obtain s3 where d3: "VisitExpr_dispatch api t ?s1' = Inr s3"
    and s2: "s2 = (if visit_counter s3 (node t) = 0
                   then s3\<lparr>visit_counter := (visit_counter s3)(node t := 1)\<rparr> else s3)"
    by (auto simp: VisitExpr_unfold split: sum.splits)
  have st: "inf_steps (below t) ?s1' s3" using visits_are_steps d3 by blast
  then obtain new where ex: "expanded s3 = expanded ?s1' @ new" by (auto simp: inf_steps_def)
  have c3: "count_list (map fst (expanded s3)) (node t) = count_list (map fst (expanded ?s1')) (node t)"
    using inf_steps_count [OF st] ac by simp
  have c1: "count_list (map fst (expanded ?s1')) (node t) = count_list (map fst (expanded s)) (node t) + 1"
    using ne by simp
  have e': "expanded s' = expanded s3" using s' s2 by simp
  have m: "(node t, Some ?e) \<in> set (expanded s')" using e' ex by simp
  have "visit_counter s2 (node t) \<noteq> 0" using s2 by simp
  then have "visit_counter s' (node t) \<noteq> 0" using s' ne by simp
  then show ?thesis using c3 c1 e' m by simp
qed

lemma Infer_log:
  assumes "api_resolves api" and "log_resolved s" and "Infer api e s = Inr (tt, s')"
  shows "log_resolved s'"
proof -
  from assms(3) obtain s0 where i: "Infer_init e s = Inr s0" and v: "VisitInferred api e s0 = Inr s'"
    by (auto simp: Infer_def split: sum.splits)
  have "expanded s0 = expanded s" using i by (auto simp: Infer_init_def split: option.splits)
  then have "log_resolved s0" using assms(2) by (simp add: log_resolved_def)
  then show ?thesis using visits_keep_gate [OF assms(1), of e s0 s'] v by (simp add: gate_kept_def)
qed

text \<open>
  C1. A node is expanded during metadata inference only through the gate: \<^verbatim>\<open>VisitInferred\<close>
  returns at once, leaving the state as it is, on a node whose entry is missing or holds a
  default-constructed descriptor. When the parameter handlers return resolved descriptors,
  every expansion that inference logs, from the seeded body on, found an entry that exists
  and holds no default-constructed descriptor. A node that is in the memo is never expanded
  again, by a gated or a direct visit. For a node with several outputs whose slots are
  written by its projections: a projection that leaves a slot unresolved returns without
  expanding the node, and the projection that resolves the last slot expands it, exactly
  once, with the entry of all the slots; from then on the node is in the memo.
\<close>

theorem gated_expansion:
  "(\<not> entry_resolved (tensor_table s (node e)) \<longrightarrow> VisitInferred api e s = Inr s)
   \<and> (api_resolves api \<and> log_resolved s \<and> VisitInferred api e s = Inr s' \<longrightarrow> log_resolved s')
   \<and> (api_resolves api \<and> log_resolved s \<and> Infer api e s = Inr (tt, s') \<longrightarrow> log_resolved s')
   \<and> (VisitInferred api e s = Inr s' \<or> VisitExpr api e s = Inr s' \<longrightarrow>
        (\<forall>n. visit_counter s n \<noteq> 0 \<longrightarrow>
           visit_counter s' n \<noteq> 0
           \<and> count_list (map fst (expanded s')) n = count_list (map fst (expanded s)) n))
   \<and> (tensor_table u g = Some [d] \<and> checked_type t = Some (TupleType tys)
        \<and> 0 \<le> index \<and> nat index < length tys \<and> node t \<noteq> g
        \<and> (\<forall>entry. tensor_table u (node t) = Some entry \<longrightarrow> length entry = length tys)
        \<and> visit_counter u g = 0 \<and> visit_counter u (node t) = 0 \<and> node t \<notin> below t
      \<longrightarrow>
        (TensorInfo_default \<in> set ((projected_entry (tensor_table u) t (length tys))[nat index := d])
           \<longrightarrow> VisitExpr api (TupleGetItem g ty t index) u =
                 Inr (u\<lparr>expanded := expanded u @ [(g, Some [d])],
                        tensor_table := (tensor_table u)
                          (node t \<mapsto> (projected_entry (tensor_table u) t (length tys))[nat index := d]),
                        visit_counter := (visit_counter u)(g := 1)\<rparr>))
        \<and> (TensorInfo_default \<notin> set ((projected_entry (tensor_table u) t (length tys))[nat index := d])
             \<and> VisitExpr api (TupleGetItem g ty t index) u = Inr u'
           \<longrightarrow> count_list (map fst (expanded u')) (node t)
                   = count_list (map fst (expanded u)) (node t) + 1
               \<and> (node t, Some ((projected_entry (tensor_table u) t (length tys))[nat index := d]))
                    \<in> set (expanded u')
               \<and> visit_counter u' (node t) \<noteq> 0))"
proof -
  have 1: "\<not> entry_resolved (tensor_table s (node e)) \<longrightarrow> VisitInferred api e s = Inr s"
    by (simp add: VisitInferred_gate)
  have 2: "api_resolves api \<and> log_resolved s \<and> VisitInferred api e s = Inr s' \<longrightarrow> log_resolved s'"
    using visits_keep_gate [of api e s s'] by (auto simp: gate_kept_def)
  have 3: "api_resolves api \<and> log_resolved s \<and> Infer api e s = Inr (tt, s') \<longrightarrow> log_resolved s'"
    using Infer_log by blast
  have 4: "visit_counter s' n \<noteq> 0
           \<and> count_list (map fst (expanded s')) n = count_list (map fst (expanded s)) n"
    if "VisitInferred api e s = Inr s' \<or> VisitExpr api e s = Inr s'" and "visit_counter s n \<noteq> 0" for n
  proof -
    have st: "inf_steps (nodes_of e) s s'" using that(1) visits_are_steps [of api e s s'] by blast
    then have "visit_counter s' n \<noteq> 0" using that(2) by (simp add: inf_steps_def)
    then show ?thesis using inf_steps_count [OF st, of n] that(2) by simp
  qed
  have 5: "VisitExpr api (TupleGetItem g ty t index) u =
                 Inr (u\<lparr>expanded := expanded u @ [(g, Some [d])],
                        tensor_table := (tensor_table u)
                          (node t \<mapsto> (projected_entry (tensor_table u) t (length tys))[nat index := d]),
                        visit_counter := (visit_counter u)(g := 1)\<rparr>)"
    if "tensor_table u g = Some [d]" "checked_type t = Some (TupleType tys)"
      "0 \<le> index" "nat index < length tys" "node t \<noteq> g"
      "\<forall>entry. tensor_table u (node t) = Some entry \<longrightarrow> length entry = length tys"
      "visit_counter u g = 0"
      "TensorInfo_default \<in> set ((projected_entry (tensor_table u) t (length tys))[nat index := d])"
    using that by (rule projection_waits)
  have 6: "count_list (map fst (expanded u')) (node t)
                   = count_list (map fst (expanded u)) (node t) + 1
               \<and> (node t, Some ((projected_entry (tensor_table u) t (length tys))[nat index := d]))
                    \<in> set (expanded u')
               \<and> visit_counter u' (node t) \<noteq> 0"
    if "tensor_table u g = Some [d]" "checked_type t = Some (TupleType tys)"
      "0 \<le> index" "nat index < length tys" "node t \<noteq> g"
      "\<forall>entry. tensor_table u (node t) = Some entry \<longrightarrow> length entry = length tys"
      "visit_counter u g = 0"
      "TensorInfo_default \<notin> set ((projected_entry (tensor_table u) t (length tys))[nat index := d])"
      "visit_counter u (node t) = 0" "node t \<notin> below t"
      "VisitExpr api (TupleGetItem g ty t index) u = Inr u'"
    using that by (rule projection_completes)
  have m4: "VisitInferred api e s = Inr s' \<or> VisitExpr api e s = Inr s' \<longrightarrow>
        (\<forall>n. visit_counter s n \<noteq> 0 \<longrightarrow>
           visit_counter s' n \<noteq> 0
           \<and> count_list (map fst (expanded s')) n = count_list (map fst (expanded s)) n)"
    using 4 by blast
  have 56: "tensor_table u g = Some [d] \<and> checked_type t = Some (TupleType tys)
        \<and> 0 \<le> index \<and> nat index < length tys \<and> node t \<noteq> g
        \<and> (\<forall>entry. tensor_table u (node t) = Some entry \<longrightarrow> length entry = length tys)
        \<and> visit_counter u g = 0 \<and> visit_counter u (node t) = 0 \<and> node t \<notin> below t
      \<longrightarrow>
        (TensorInfo_default \<in> set ((projected_entry (tensor_table u) t (length tys))[nat index := d])
           \<longrightarrow> VisitExpr api (TupleGetItem g ty t index) u =
                 Inr (u\<lparr>expanded := expanded u @ [(g, Some [d])],
                        tensor_table := (tensor_table u)
                          (node t \<mapsto> (projected_entry (tensor_table u) t (length tys))[nat index := d]),
                        visit_counter := (visit_counter u)(g := 1)\<rparr>))
        \<and> (TensorInfo_default \<notin> set ((projected_entry (tensor_table u) t (length tys))[nat index := d])
             \<and> VisitExpr api (TupleGetItem g ty t index) u = Inr u'
           \<longrightarrow> count_list (map fst (expanded u')) (node t)
                   = count_list (map fst (expanded u)) (node t) + 1
               \<and> (node t, Some ((projected_entry (tensor_table u) t (length tys))[nat index := d]))
                    \<in> set (expanded u')
               \<and> visit_counter u' (node t) \<noteq> 0)"
  proof (intro impI)
    assume "tensor_table u g = Some [d] \<and> checked_type t = Some (TupleType tys)
        \<and> 0 \<le> index \<and> nat index < length tys \<and> node t \<noteq> g
        \<and> (\<forall>entry. tensor_table u (node t) = Some entry \<longrightarrow> length entry = length tys)
        \<and> visit_counter u g = 0 \<and> visit_counter u (node t) = 0 \<and> node t \<notin> below t"
    then have h: "tensor_table u g = Some [d]" "checked_type t = Some (TupleType tys)"
      "0 \<le> index" "nat index < length tys" "node t \<noteq> g"
      "\<forall>entry. tensor_table u (node t) = Some entry \<longrightarrow> length entry = length tys"
      "visit_counter u g = 0" "visit_counter u (node t) = 0" "node t \<notin> below t"
      by blast+
    show "(TensorInfo_default \<in> set ((projected_entry (tensor_table u) t (length tys))[nat index := d])
           \<longrightarrow> VisitExpr api (TupleGetItem g ty t index) u =
                 Inr (u\<lparr>expanded := expanded u @ [(g, Some [d])],
                        tensor_table := (tensor_table u)
                          (node t \<mapsto> (projected_entry (tensor_table u) t (length tys))[nat index := d]),
                        visit_counter := (visit_counter u)(g := 1)\<rparr>))
        \<and> (TensorInfo_default \<notin> set ((projected_entry (tensor_table u) t (length tys))[nat index := d])
             \<and> VisitExpr api (TupleGetItem g ty t index) u = Inr u'
           \<longrightarrow> count_list (map fst (expanded u')) (node t)
                   = count_list (map fst (expanded u)) (node t) + 1
               \<and> (node t, Some ((projected_entry (tensor_table u) t (length tys))[nat index := d]))
                    \<in> set (expanded u')
               \<and> visit_counter u' (node t) \<noteq> 0)"
    proof (rule conjI; rule impI)
      assume "TensorInfo_default \<in> set ((projected_entry (tensor_table u) t (length tys))[nat index := d])"
      then show "VisitExpr api (TupleGetItem g ty t index) u =
                 Inr (u\<lparr>expanded := expanded u @ [(g, Some [d])],
                        tensor_table := (tensor_table u)
                          (node t \<mapsto> (projected_entry (tensor_table u) t (length tys))[nat index := d]),
                        visit_counter := (visit_counter u)(g := 1)\<rparr>)"
        using 5 h by blast
    next
      assume "TensorInfo_default \<notin> set ((projected_entry (tensor_table u) t (length tys))[nat index := d])
             \<and> VisitExpr api (TupleGetItem g ty t index) u = Inr u'"
      then show "count_list (map fst (expanded u')) (node t)
                   = count_list (map fst (expanded u)) (node t) + 1
               \<and> (node t, Some ((projected_entry (tensor_table u) t (length tys))[nat index := d]))
                    \<in> set (expanded u')
               \<and> visit_counter u' (node t) \<noteq> 0"
        using 6 h by blast
    qed
  qed
  show ?thesis by (rule conjI [OF 1 conjI [OF 2 conjI [OF 3 conjI [OF m4 56]]]])
qed

lemma ref_api_resolves: "api_resolves ref_api"
  by (auto simp: api_resolves_def ref_api_def ref_info_def TensorInfo_default_def
      split: expr.splits list.splits option.splits rtype.splits)

theorem gated_expansion_witness:
  "api_resolves ref_api
   \<and> (\<exists>u1 u2 u3 tt s.
         VisitExpr ref_api first_projection projections_ready = Inr u1
       \<and> tensor_table u1 3 = Some [TensorInfo_default, ref_info]
       \<and> count_list (map fst (expanded u1)) 3 = 0
       \<and> VisitInferred ref_api (body split_function) u1 = Inr u1
       \<and> VisitExpr ref_api second_projection u1 = Inr u2
       \<and> count_list (map fst (expanded u2)) 3 = 1
       \<and> (3, Some [ref_info, ref_info]) \<in> set (expanded u2)
       \<and> VisitInferred ref_api (body split_function) u2 = Inr u3
       \<and> count_list (map fst (expanded u3)) 3 = 1
       \<and> Infer ref_api (body projections_function) InferTensorsVisitor_new = Inr (tt, s)
       \<and> map fst (expanded s) = [6, 4, 5, 3, 0]
       \<and> log_resolved s)"
proof -
  let ?t = "body split_function"
  let ?tys = "[TensorType, TensorType]"
  define u1 where "u1 = projections_ready
      \<lparr>expanded := expanded projections_ready @ [(4, Some [ref_info])],
       tensor_table := (tensor_table projections_ready)
         (node ?t \<mapsto> (projected_entry (tensor_table projections_ready) ?t (length ?tys))[nat 1 := ref_info]),
       visit_counter := (visit_counter projections_ready)(4 := 1)\<rparr>"
  have nt: "node ?t = 3" "checked_type ?t = Some (TupleType ?tys)" "3 \<notin> below ?t"
    by (simp_all add: split_function_def)
  have ne: "ref_info \<noteq> TensorInfo_default"
    by (simp add: ref_info_def TensorInfo_default_def)
  have api: "api_resolves ref_api"
    by (auto simp: api_resolves_def ref_api_def ref_info_def TensorInfo_default_def
          split: expr.splits list.splits option.splits rtype.splits)
  have tt1: "tensor_table u1 3 = Some [TensorInfo_default, ref_info]"
    by (simp add: u1_def nt projections_ready_def projected_entry_def numeral_2_eq_2)
  have first: "VisitExpr ref_api first_projection projections_ready = Inr u1"
    using gated_expansion [where u = projections_ready and g = 4 and d = ref_info and t = ?t
        and tys = ?tys and index = 1 and api = ref_api and ty = "Some TensorType"]
    unfolding u1_def first_projection_def
    by (simp add: nt projections_ready_def projected_entry_def numeral_2_eq_2)
  have c1: "count_list (map fst (expanded u1)) 3 = 0"
    by (simp add: u1_def projections_ready_def)
  have blocked: "VisitInferred ref_api ?t u1 = Inr u1"
    using gated_expansion [where s = u1 and e = ?t and api = ref_api] tt1
    by (simp add: nt entry_resolved_def)
  have "case VisitExpr ref_api second_projection
               (case VisitExpr ref_api first_projection projections_ready of
                  Inl _ \<Rightarrow> projections_ready | Inr u \<Rightarrow> u) of
          Inl _ \<Rightarrow> False
        | Inr u \<Rightarrow> (case VisitInferred ref_api (body split_function) u of
                     Inl _ \<Rightarrow> False | Inr _ \<Rightarrow> True)"
    by code_simp
  then obtain u2 u3 where second: "VisitExpr ref_api second_projection u1 = Inr u2"
    and third: "VisitInferred ref_api ?t u2 = Inr u3"
    unfolding first by (auto split: sum.splits)
  have h: "tensor_table u1 5 = Some [ref_info]" "visit_counter u1 5 = 0" "visit_counter u1 3 = 0"
    by (simp_all add: u1_def nt projections_ready_def)
  have two: "count_list (map fst (expanded u2)) 3 = 1
      \<and> (3, Some [ref_info, ref_info]) \<in> set (expanded u2) \<and> visit_counter u2 3 \<noteq> 0"
    using gated_expansion [where u = u1 and g = 5 and d = ref_info and t = ?t
        and tys = ?tys and index = 0 and api = ref_api and ty = "Some TensorType" and u' = u2]
      second c1 tt1 ne h
    unfolding second_projection_def
    by (simp add: nt projected_entry_def)
  have c3: "count_list (map fst (expanded u3)) 3 = 1"
    using gated_expansion [where s = u2 and s' = u3 and e = ?t and api = ref_api] third two
    by simp
  have "case Infer ref_api (body projections_function) InferTensorsVisitor_new of
          Inl _ \<Rightarrow> False | Inr (tt, s) \<Rightarrow> map fst (expanded s) = [6, 4, 5, 3, 0]"
    by code_simp
  then obtain tt s where
    inf: "Infer ref_api (body projections_function) InferTensorsVisitor_new = Inr (tt, s)"
    and lg: "map fst (expanded s) = [6, 4, 5, 3, 0]"
    by (auto split: sum.splits)
  have lr: "log_resolved s"
    using gated_expansion [where s = InferTensorsVisitor_new and s' = s and tt = tt
        and e = "body projections_function" and api = ref_api] api inf
    by (simp add: log_resolved_def InferTensorsVisitor_new_def)
  show ?thesis
    by (rule conjI [OF api], rule exI [of _ u1], rule exI [of _ u2], rule exI [of _ u3],
        rule exI [of _ tt], rule exI [of _ s])
       (simp add: first tt1 c1 blocked second two third c3 inf lg lr)
qed

end
